(* ===== verification/Prelude.thy ===== *)
theory Prelude
  imports Main
begin

text \<open>
  Shared vocabulary of the development: the lemma collections the component
  theories add to, JavaScript truthiness of the two kinds of values the
  controller tests with \<^verbatim>\<open>!x\<close>, and generic facts about running a list of
  commands or events through a step function. Everything here is stated over
  type variables; the component theories instantiate it.
\<close>

section \<open>Lemma collections\<close>

named_theorems cmd_defs \<open>definitions of the command lists that closures and effects emit\<close>
named_theorems frame \<open>fields of the state that an operation leaves unchanged\<close>
named_theorems inv_defs \<open>definitions of the invariants of the controller\<close>

section \<open>JavaScript truthiness\<close>

text \<open>
  The source tests two kinds of values for truthiness. An object-or-null value
  (\<^verbatim>\<open>User | null\<close>) is truthy exactly when it is an object. A string-or-undefined
  value (what the key-value store returns for the avatar) is truthy exactly when
  it is a non-empty string: the empty string is falsy in JavaScript.
\<close>

definition truthy :: "'a option \<Rightarrow> bool" where
  "truthy v = (case v of None \<Rightarrow> False | Some _ \<Rightarrow> True)"

definition truthy_string :: "string option \<Rightarrow> bool" where
  "truthy_string v = (case v of None \<Rightarrow> False | Some s \<Rightarrow> s \<noteq> [])"

lemma truthy_simps [simp]:
  "truthy None = False"
  "truthy (Some x) = True"
  by (simp_all add: truthy_def)

lemma truthy_iff: "truthy v \<longleftrightarrow> v \<noteq> None"
  by (cases v) simp_all

lemma truthy_string_simps [simp]:
  "truthy_string None = False"
  "truthy_string (Some s) = (s \<noteq> [])"
  by (simp_all add: truthy_string_def)

lemma truthy_string_imp_truthy: "truthy_string v \<Longrightarrow> truthy v"
  by (cases v) simp_all

section \<open>Running a step function over a list\<close>

text \<open>
  Commands and events are run in order with \<^const>\<open>foldl\<close>. A predicate that
  every single step keeps is kept by the whole run, and a projection that no
  single step changes is unchanged by the run.
\<close>

definition preserves :: "('s \<Rightarrow> bool) \<Rightarrow> ('s \<Rightarrow> 'e \<Rightarrow> 's) \<Rightarrow> bool" where
  "preserves I f \<longleftrightarrow> (\<forall>s e. I s \<longrightarrow> I (f s e))"

lemma preservesI: "(\<And>s e. I s \<Longrightarrow> I (f s e)) \<Longrightarrow> preserves I f"
  by (simp add: preserves_def)

lemma preservesD: "preserves I f \<Longrightarrow> I s \<Longrightarrow> I (f s e)"
  by (simp add: preserves_def)

lemma preserves_foldl: "preserves I f \<Longrightarrow> I s \<Longrightarrow> I (foldl f s es)"
  by (induction es arbitrary: s) (simp_all add: preserves_def)

lemma preserves_conj:
  "preserves I f \<Longrightarrow> preserves J f \<Longrightarrow> preserves (\<lambda>s. I s \<and> J s) f"
  by (simp add: preserves_def)

lemma foldl_frame:
  "(\<And>s e. e \<in> set es \<Longrightarrow> g (f s e) = g s) \<Longrightarrow> g (foldl f s es) = g s"
  by (induction es arbitrary: s) simp_all

lemma foldl_snoc: "foldl f s (es @ [e]) = f (foldl f s es) e"
  by simp

section \<open>Reachable states of a transition system\<close>

text \<open>
  A transition system is an initial-state predicate and a step relation. The
  invariant rule is the only way the component theories reason about
  \<open>reachable\<close>: a predicate that holds initially and is kept by every step
  holds in every reachable state.
\<close>

inductive reachable :: "('s \<Rightarrow> bool) \<Rightarrow> ('s \<Rightarrow> 's \<Rightarrow> bool) \<Rightarrow> 's \<Rightarrow> bool"
  for init :: "'s \<Rightarrow> bool" and step :: "'s \<Rightarrow> 's \<Rightarrow> bool"
where
  reachable_init: "init s \<Longrightarrow> reachable init step s"
| reachable_step: "reachable init step s \<Longrightarrow> step s t \<Longrightarrow> reachable init step t"

lemma reachable_invariant:
  assumes "reachable init step s"
    and init: "\<And>s. init s \<Longrightarrow> I s"
    and step: "\<And>s t. reachable init step s \<Longrightarrow> I s \<Longrightarrow> step s t \<Longrightarrow> I t"
  shows "I s"
  using assms(1)
proof (induction rule: reachable.induct)
  case (reachable_init s)
  then show ?case by (rule init)
next
  case (reachable_step s t)
  then show ?case by (blast intro: step)
qed

lemma reachable_mono:
  assumes "reachable init step s"
    and init: "\<And>s. init s \<Longrightarrow> init' s"
    and step: "\<And>s t. step s t \<Longrightarrow> step' s t"
  shows "reachable init' step' s"
  using assms(1)
proof (induction rule: reachable.induct)
  case (reachable_init s)
  then show ?case by (blast intro: reachable.reachable_init init)
next
  case (reachable_step s t)
  then show ?case by (blast intro: reachable.reachable_step step)
qed

section \<open>The string literals of an enumeration\<close>

text \<open>
  A union of string literals is a datatype in the theories below and a set of
  strings when the program runs. For a function \<open>lit\<close> from an enumeration to
  the literals, \<open>of_literal lit\<close> reads a string back and \<open>is_literal lit\<close>
  holds of the strings of the type. The lemmas are stated for every enumeration;
  all they ask of \<open>lit\<close> is that the literals are distinct.
\<close>

definition of_literal :: "('a::enum \<Rightarrow> string) \<Rightarrow> string \<Rightarrow> 'a option" where
  "of_literal lit s = map_of (map (\<lambda>x. (lit x, x)) Enum.enum) s"

definition is_literal :: "('a::enum \<Rightarrow> string) \<Rightarrow> string \<Rightarrow> bool" where
  "is_literal lit s \<longleftrightarrow> of_literal lit s \<noteq> None"

definition distinct_literals :: "('a::enum \<Rightarrow> string) \<Rightarrow> bool" where
  "distinct_literals lit \<longleftrightarrow> distinct (map lit Enum.enum)"

lemma of_literal_SomeD: "of_literal lit s = Some x \<Longrightarrow> s = lit x"
  unfolding of_literal_def by (auto dest: map_of_SomeD)

lemma of_literal_literal [simp]:
  assumes "distinct_literals lit"
  shows "of_literal lit (lit x) = Some x"
proof -
  have "distinct (map fst (map (\<lambda>x. (lit x, x)) Enum.enum))"
    using assms by (simp add: distinct_literals_def comp_def)
  moreover have "(lit x, x) \<in> set (map (\<lambda>x. (lit x, x)) Enum.enum)"
    by (simp add: enum_UNIV)
  ultimately show ?thesis
    unfolding of_literal_def by (rule map_of_is_SomeI)
qed

lemma of_literal_Some_iff:
  "distinct_literals lit \<Longrightarrow> of_literal lit s = Some x \<longleftrightarrow> s = lit x"
  by (auto dest: of_literal_SomeD)

lemma inj_literal: "distinct_literals lit \<Longrightarrow> inj lit"
  by (rule inj_on_inverseI [where g = "the \<circ> of_literal lit"]) simp

lemma literal_eq_iff: "distinct_literals lit \<Longrightarrow> lit x = lit y \<longleftrightarrow> x = y"
  by (auto dest: inj_literal injD)

lemma is_literal_iff: "distinct_literals lit \<Longrightarrow> is_literal lit s \<longleftrightarrow> (\<exists>x. s = lit x)"
  by (auto simp: is_literal_def dest: of_literal_SomeD)

lemma is_literal_literal [simp]: "distinct_literals lit \<Longrightarrow> is_literal lit (lit x)"
  by (auto simp: is_literal_iff)

section \<open>Sums over lists\<close>

text \<open>Replacing one element of a list changes the sum by that element.\<close>

lemma sum_list_map_update:
  fixes f :: "'a \<Rightarrow> 'b::comm_monoid_add"
  shows "i < length xs \<Longrightarrow>
     sum_list (map f (xs[i := y])) + f (xs ! i) = sum_list (map f xs) + f y"
proof (induction xs arbitrary: i)
  case Nil
  then show ?case by simp
next
  case (Cons x xs)
  then show ?case by (cases i) (auto simp: ac_simps)
qed

text \<open>A positive sum has a positive summand.\<close>

lemma sum_list_pos_elem: "0 < sum_list (map f xs) \<Longrightarrow> \<exists>x \<in> set xs. 0 < (f x :: nat)"
  by (induction xs) auto

end
