(* ===== verification/Types.thy ===== *)
theory Types
  imports Prelude
begin

text \<open>
  The data model of \<^verbatim>\<open>src/types.ts\<close>. A string-literal union is a
  \<^theory_text>\<open>datatype\<close> whose constructors are the literals, an interface is a
  \<^theory_text>\<open>record\<close>, an optional field \<^verbatim>\<open>f?: T\<close> has type \<open>T option\<close>, and
  \<^verbatim>\<open>T | null\<close> is \<open>T option\<close> as well. A field name that several interfaces
  share, or that is a name of HOL or a keyword of Isar, carries the name of its
  interface as a suffix (\<open>id_User\<close>, \<open>text_ChatMessage\<close>); every other field
  keeps the name it has in the source.

  JavaScript's \<^verbatim>\<open>number\<close> (an IEEE-754 double) and React's component type
  \<^verbatim>\<open>React.FC\<close> are left uninterpreted: no code under \<^verbatim>\<open>src/\<close> computes with a
  number or inspects a component, so no property depends on what they are.

  Only \<open>Page\<close> and \<open>User\<close> are used by the controller of \<^verbatim>\<open>src/App.tsx\<close>;
  the other interfaces are the shapes of the data the pages exchange.

  Every union is an instance of the class \<open>enum\<close>, and for every union a
  function (\<open>Page_literal\<close>, \<open>Province_literal\<close>, ...) gives the string a
  value is when the program runs. The lemmas on literals of theory
  \<open>Prelude\<close>, stated for any enumeration, apply to each of them once its
  literals are shown to be distinct.
\<close>

section \<open>Uninterpreted base types\<close>

typedecl js_number
typedecl React_FC

section \<open>Languages, users and pages\<close>

datatype Language = en | af | xh | zu

record User =
  id_User :: string
  name_User :: string
  email :: string
  password :: "string option"

datatype Page = home | chat | learn | directory | tracker | community | profile | auth

section \<open>Chat\<close>

datatype Role = user | model

record ChatMessage =
  role :: Role
  text_ChatMessage :: string

record ChatSession =
  id_ChatSession :: string
  userId_ChatSession :: string
  title_ChatSession :: string
  createdAt_ChatSession :: string
  messages :: "ChatMessage list"

section \<open>Symptom log\<close>

record SymptomLog =
  id_SymptomLog :: string
  userId_SymptomLog :: string
  date_SymptomLog :: string
  symptoms :: "string list"
  severity :: js_number
  notes_SymptomLog :: "string option"

section \<open>Articles\<close>

datatype Level = Beginner | Intermediate | Advanced

record Article =
  id_Article :: js_number
  title_Article :: string
  level :: Level
  readTime :: js_number
  image_Article :: string
  content_Article :: string
  infographic :: "React_FC option"

section \<open>Directory\<close>

datatype Province =
    Western_Cape | Gauteng | KwaZulu_Natal | Eastern_Cape | Free_State
  | Limpopo | Mpumalanga | North_West | Northern_Cape | Nationwide

datatype Category =
    Public_Dental_Clinic | Community_Health_Center | Emergency_Dental_Service
  | NGO_Healthcare_Provider | Crisis_Helpline

record DirectoryResource =
  id_DirectoryResource :: string
  name_DirectoryResource :: string
  address :: string
  province :: Province
  category :: Category
  type_DirectoryResource :: string
  hours :: "string option"
  services :: string
  phone :: string
  image_DirectoryResource :: string
  isHelpline :: "bool option"

section \<open>Community\<close>

record CommunityReply =
  id_CommunityReply :: string
  authorId_CommunityReply :: string
  authorName_CommunityReply :: string
  authorAvatar_CommunityReply :: "string option"
  content_CommunityReply :: string
  createdAt_CommunityReply :: string
  updatedAt_CommunityReply :: string

record CommunityPost =
  id_CommunityPost :: string
  authorId_CommunityPost :: string
  authorName_CommunityPost :: string
  authorAvatar_CommunityPost :: "string option"
  title_CommunityPost :: string
  content_CommunityPost :: string
  createdAt_CommunityPost :: string
  updatedAt_CommunityPost :: string
  views :: js_number
  replies :: "CommunityReply list"

section \<open>The page enumeration is closed\<close>

text \<open>
  \<open>Page\<close> has exactly the eight values of the union type. It is made an
  instance of the library's class \<open>enum\<close>, so that a statement quantified
  over all pages is decided by evaluation and a set of pages is finite.
\<close>

lemma UNIV_Page: "UNIV = {home, chat, learn, directory, tracker, community, profile, auth}"
  using Page.exhaust by auto

instantiation Page :: enum
begin

definition enum_Page :: "Page list" where
  "enum_Page = [home, chat, learn, directory, tracker, community, profile, auth]"

definition enum_all_Page :: "(Page \<Rightarrow> bool) \<Rightarrow> bool" where
  "enum_all_Page P \<longleftrightarrow> list_all P [home, chat, learn, directory, tracker, community, profile, auth]"

definition enum_ex_Page :: "(Page \<Rightarrow> bool) \<Rightarrow> bool" where
  "enum_ex_Page P \<longleftrightarrow> list_ex P [home, chat, learn, directory, tracker, community, profile, auth]"

instance
  by intro_classes
    (simp_all add: enum_Page_def enum_all_Page_def enum_ex_Page_def UNIV_Page)

end

lemma card_Page: "card (UNIV :: Page set) = 8"
  by (simp add: UNIV_Page)

section \<open>The other unions are enumerations as well\<close>

lemma UNIV_Language: "UNIV = {en, af, xh, zu}"
  using Language.exhaust by auto

instantiation Language :: enum
begin

definition enum_Language :: "Language list" where
  "enum_Language = [en, af, xh, zu]"

definition enum_all_Language :: "(Language \<Rightarrow> bool) \<Rightarrow> bool" where
  "enum_all_Language P \<longleftrightarrow> list_all P [en, af, xh, zu]"

definition enum_ex_Language :: "(Language \<Rightarrow> bool) \<Rightarrow> bool" where
  "enum_ex_Language P \<longleftrightarrow> list_ex P [en, af, xh, zu]"

instance
  by intro_classes
    (simp_all add: enum_Language_def enum_all_Language_def enum_ex_Language_def UNIV_Language)

end

lemma UNIV_Role: "UNIV = {user, model}"
  using Role.exhaust by auto

instantiation Role :: enum
begin

definition enum_Role :: "Role list" where
  "enum_Role = [user, model]"

definition enum_all_Role :: "(Role \<Rightarrow> bool) \<Rightarrow> bool" where
  "enum_all_Role P \<longleftrightarrow> list_all P [user, model]"

definition enum_ex_Role :: "(Role \<Rightarrow> bool) \<Rightarrow> bool" where
  "enum_ex_Role P \<longleftrightarrow> list_ex P [user, model]"

instance
  by intro_classes
    (simp_all add: enum_Role_def enum_all_Role_def enum_ex_Role_def UNIV_Role)

end

lemma UNIV_Level: "UNIV = {Beginner, Intermediate, Advanced}"
  using Level.exhaust by auto

instantiation Level :: enum
begin

definition enum_Level :: "Level list" where
  "enum_Level = [Beginner, Intermediate, Advanced]"

definition enum_all_Level :: "(Level \<Rightarrow> bool) \<Rightarrow> bool" where
  "enum_all_Level P \<longleftrightarrow> list_all P [Beginner, Intermediate, Advanced]"

definition enum_ex_Level :: "(Level \<Rightarrow> bool) \<Rightarrow> bool" where
  "enum_ex_Level P \<longleftrightarrow> list_ex P [Beginner, Intermediate, Advanced]"

instance
  by intro_classes
    (simp_all add: enum_Level_def enum_all_Level_def enum_ex_Level_def UNIV_Level)

end

lemma UNIV_Province: "UNIV = {Western_Cape, Gauteng, KwaZulu_Natal, Eastern_Cape, Free_State, Limpopo, Mpumalanga, North_West, Northern_Cape, Nationwide}"
  using Province.exhaust by auto

instantiation Province :: enum
begin

definition enum_Province :: "Province list" where
  "enum_Province = [Western_Cape, Gauteng, KwaZulu_Natal, Eastern_Cape, Free_State, Limpopo, Mpumalanga, North_West, Northern_Cape, Nationwide]"

definition enum_all_Province :: "(Province \<Rightarrow> bool) \<Rightarrow> bool" where
  "enum_all_Province P \<longleftrightarrow> list_all P [Western_Cape, Gauteng, KwaZulu_Natal, Eastern_Cape, Free_State, Limpopo, Mpumalanga, North_West, Northern_Cape, Nationwide]"

definition enum_ex_Province :: "(Province \<Rightarrow> bool) \<Rightarrow> bool" where
  "enum_ex_Province P \<longleftrightarrow> list_ex P [Western_Cape, Gauteng, KwaZulu_Natal, Eastern_Cape, Free_State, Limpopo, Mpumalanga, North_West, Northern_Cape, Nationwide]"

instance
  by intro_classes
    (simp_all add: enum_Province_def enum_all_Province_def enum_ex_Province_def UNIV_Province)

end

lemma UNIV_Category: "UNIV = {Public_Dental_Clinic, Community_Health_Center, Emergency_Dental_Service, NGO_Healthcare_Provider, Crisis_Helpline}"
  using Category.exhaust by auto

instantiation Category :: enum
begin

definition enum_Category :: "Category list" where
  "enum_Category = [Public_Dental_Clinic, Community_Health_Center, Emergency_Dental_Service, NGO_Healthcare_Provider, Crisis_Helpline]"

definition enum_all_Category :: "(Category \<Rightarrow> bool) \<Rightarrow> bool" where
  "enum_all_Category P \<longleftrightarrow> list_all P [Public_Dental_Clinic, Community_Health_Center, Emergency_Dental_Service, NGO_Healthcare_Provider, Crisis_Helpline]"

definition enum_ex_Category :: "(Category \<Rightarrow> bool) \<Rightarrow> bool" where
  "enum_ex_Category P \<longleftrightarrow> list_ex P [Public_Dental_Clinic, Community_Health_Center, Emergency_Dental_Service, NGO_Healthcare_Provider, Crisis_Helpline]"

instance
  by intro_classes
    (simp_all add: enum_Category_def enum_all_Category_def enum_ex_Category_def UNIV_Category)

end

section \<open>The literals\<close>

text \<open>
  The strings the values of the unions are when the program runs, as
  \<^verbatim>\<open>src/types.ts\<close> spells them. The constructors of the datatypes are these
  strings with \<open>_\<close> for a blank or a hyphen.
\<close>

fun Page_literal :: "Page \<Rightarrow> string" where
  "Page_literal home = ''home''"
| "Page_literal chat = ''chat''"
| "Page_literal learn = ''learn''"
| "Page_literal directory = ''directory''"
| "Page_literal tracker = ''tracker''"
| "Page_literal community = ''community''"
| "Page_literal profile = ''profile''"
| "Page_literal auth = ''auth''"

lemma distinct_Page_literal [simp]: "distinct_literals Page_literal"
  by (simp add: distinct_literals_def enum_Page_def)

fun Language_literal :: "Language \<Rightarrow> string" where
  "Language_literal en = ''en''"
| "Language_literal af = ''af''"
| "Language_literal xh = ''xh''"
| "Language_literal zu = ''zu''"

lemma distinct_Language_literal [simp]: "distinct_literals Language_literal"
  by (simp add: distinct_literals_def enum_Language_def)

fun Role_literal :: "Role \<Rightarrow> string" where
  "Role_literal user = ''user''"
| "Role_literal model = ''model''"

lemma distinct_Role_literal [simp]: "distinct_literals Role_literal"
  by (simp add: distinct_literals_def enum_Role_def)

fun Level_literal :: "Level \<Rightarrow> string" where
  "Level_literal Beginner = ''Beginner''"
| "Level_literal Intermediate = ''Intermediate''"
| "Level_literal Advanced = ''Advanced''"

lemma distinct_Level_literal [simp]: "distinct_literals Level_literal"
  by (simp add: distinct_literals_def enum_Level_def)

fun Province_literal :: "Province \<Rightarrow> string" where
  "Province_literal Western_Cape = ''Western Cape''"
| "Province_literal Gauteng = ''Gauteng''"
| "Province_literal KwaZulu_Natal = ''KwaZulu-Natal''"
| "Province_literal Eastern_Cape = ''Eastern Cape''"
| "Province_literal Free_State = ''Free State''"
| "Province_literal Limpopo = ''Limpopo''"
| "Province_literal Mpumalanga = ''Mpumalanga''"
| "Province_literal North_West = ''North West''"
| "Province_literal Northern_Cape = ''Northern Cape''"
| "Province_literal Nationwide = ''Nationwide''"

lemma distinct_Province_literal [simp]: "distinct_literals Province_literal"
  by (simp add: distinct_literals_def enum_Province_def)

fun Category_literal :: "Category \<Rightarrow> string" where
  "Category_literal Public_Dental_Clinic = ''Public Dental Clinic''"
| "Category_literal Community_Health_Center = ''Community Health Center''"
| "Category_literal Emergency_Dental_Service = ''Emergency Dental Service''"
| "Category_literal NGO_Healthcare_Provider = ''NGO Healthcare Provider''"
| "Category_literal Crisis_Helpline = ''Crisis Helpline''"

lemma distinct_Category_literal [simp]: "distinct_literals Category_literal"
  by (simp add: distinct_literals_def enum_Category_def)

lemmas distinct_literals_types =
  distinct_Page_literal distinct_Language_literal distinct_Role_literal distinct_Level_literal
  distinct_Province_literal distinct_Category_literal

section \<open>Properties of the data model\<close>


end
