(* ===== verification/AppState.thy ===== *)
theory AppState
  imports Types
begin

text \<open>
  The state of the component \<^verbatim>\<open>AppContent\<close> of \<^verbatim>\<open>src/App.tsx\<close> and the
  writes its closures perform on it.

  React keeps the value of every hook between renders; a render reads them,
  and the closures it creates (\<^verbatim>\<open>navigate\<close>, the effect bodies) see the
  values of \<^emph>\<open>that\<close> render. A closure does not change the state it reads: a
  state setter queues a write that the next render will see, and
  \<^verbatim>\<open>window.scrollTo\<close> acts on the window. A closure is therefore modelled as a
  function from the values it captured to the list of \<open>action\<close>s it performs,
  in program order, and \<open>run_actions\<close> applies such a list to the state.
  No action reads the state, so applying the writes one after the other is
  exactly React's "the last write to a hook wins".

  \<^item> \<open>contexts\<close>: what \<^verbatim>\<open>useAuth()\<close> and \<^verbatim>\<open>useLanguage()\<close> hand to the
    component (lines 19-20);
  \<^item> \<open>app_state\<close>: the three \<^verbatim>\<open>useState\<close> hooks and the \<^verbatim>\<open>useRef\<close> (lines
    21-24), and the log of the calls made to \<^verbatim>\<open>window.scrollTo\<close>;
  \<^item> \<open>mount\<close>: the initial values of the hooks.
\<close>

section \<open>Context values and hook state\<close>

record contexts =
  currentUser :: "User option"
  isAuthLoading :: bool
  isTranslationsLoading :: bool

record app_state =
  currentPage :: Page
  previousPage :: Page
  isAppInitializing :: bool
  prevUserRef :: "User option"
  scrollCalls :: "(int \<times> int) list"

definition mount :: "contexts \<Rightarrow> app_state" where
  "mount ctx =
     \<lparr> currentPage = home,
       previousPage = home,
       isAppInitializing = True,
       prevUserRef = currentUser ctx,
       scrollCalls = [] \<rparr>"

section \<open>Actions\<close>

datatype action =
    SetCurrentPage Page
  | SetPreviousPage Page
  | SetIsAppInitializing bool
  | SetPrevUserRef "User option"
  | ScrollTo int int

fun apply_action :: "app_state \<Rightarrow> action \<Rightarrow> app_state" where
  "apply_action s (SetCurrentPage p) = s\<lparr>currentPage := p\<rparr>"
| "apply_action s (SetPreviousPage p) = s\<lparr>previousPage := p\<rparr>"
| "apply_action s (SetIsAppInitializing b) = s\<lparr>isAppInitializing := b\<rparr>"
| "apply_action s (SetPrevUserRef u) = s\<lparr>prevUserRef := u\<rparr>"
| "apply_action s (ScrollTo x y) = s\<lparr>scrollCalls := scrollCalls s @ [(x, y)]\<rparr>"

definition run_actions :: "app_state \<Rightarrow> action list \<Rightarrow> app_state" where
  "run_actions s as = foldl apply_action s as"

section \<open>Running action lists\<close>

lemma run_actions_Nil [simp]: "run_actions s [] = s"
  by (simp add: run_actions_def)

lemma run_actions_Cons [simp]:
  "run_actions s (a # as) = run_actions (apply_action s a) as"
  by (simp add: run_actions_def)

lemma run_actions_append [simp]:
  "run_actions s (as @ bs) = run_actions (run_actions s as) bs"
  by (simp add: run_actions_def)

text \<open>
  What a list of actions writes to each hook: the last write wins, and a hook
  that is not written keeps its value. \<open>last_write\<close> picks the last value an
  action list writes through a given selector of writes.
\<close>

fun writes_currentPage :: "action \<Rightarrow> Page option" where
  "writes_currentPage (SetCurrentPage p) = Some p"
| "writes_currentPage _ = None"

fun writes_previousPage :: "action \<Rightarrow> Page option" where
  "writes_previousPage (SetPreviousPage p) = Some p"
| "writes_previousPage _ = None"

fun last_write :: "(action \<Rightarrow> 'a option) \<Rightarrow> 'a \<Rightarrow> action list \<Rightarrow> 'a" where
  "last_write w d [] = d"
| "last_write w d (a # as) = last_write w (case w a of None \<Rightarrow> d | Some v \<Rightarrow> v) as"

lemma currentPage_apply_action:
  "currentPage (apply_action s a) =
     (case writes_currentPage a of None \<Rightarrow> currentPage s | Some p \<Rightarrow> p)"
  by (cases a) simp_all

lemma previousPage_apply_action:
  "previousPage (apply_action s a) =
     (case writes_previousPage a of None \<Rightarrow> previousPage s | Some p \<Rightarrow> p)"
  by (cases a) simp_all

lemma currentPage_run_actions:
  "currentPage (run_actions s as) = last_write writes_currentPage (currentPage s) as"
  by (induction as arbitrary: s) (simp_all add: currentPage_apply_action)

lemma previousPage_run_actions:
  "previousPage (run_actions s as) = last_write writes_previousPage (previousPage s) as"
  by (induction as arbitrary: s) (simp_all add: previousPage_apply_action)

lemma last_write_append:
  "last_write w d (as @ bs) = last_write w (last_write w d as) bs"
  by (induction as arbitrary: d) simp_all

text \<open>The log of scroll calls only grows.\<close>

lemma scrollCalls_apply_action_prefix:
  "\<exists>xs. scrollCalls (apply_action s a) = scrollCalls s @ xs"
  by (cases a) simp_all

lemma scrollCalls_run_actions_prefix:
  "\<exists>xs. scrollCalls (run_actions s as) = scrollCalls s @ xs"
proof (induction as arbitrary: s)
  case Nil
  show ?case by simp
next
  case (Cons a as)
  obtain xs where "scrollCalls (apply_action s a) = scrollCalls s @ xs"
    using scrollCalls_apply_action_prefix by blast
  moreover obtain ys where
    "scrollCalls (run_actions (apply_action s a) as) = scrollCalls (apply_action s a) @ ys"
    using Cons.IH by blast
  ultimately show ?case by simp
qed

end
