(* ===== verification/Navigation.thy ===== *)
theory Navigation
  imports AppState
begin

text \<open>
  The \<^verbatim>\<open>navigate\<close> callback of \<^verbatim>\<open>AppContent\<close> (\<^verbatim>\<open>src/App.tsx\<close>, lines 46-52).

  \<^verbatim>\<open>useCallback(..., [currentPage])\<close> makes a new closure whenever
  \<open>currentPage\<close> changes, so the closure of a render has captured that render's
  \<open>currentPage\<close>: it is the first argument of \<open>navigate\<close>. The second is the
  page the caller passes. The result is the list of writes of one call.

  \<^item> \<open>do_navigate\<close>: a call through the closure of the current render;
  \<^item> \<open>navigate_seq\<close>: a sequence of such calls, with a render between any two;
  \<^item> \<open>navigate_batch\<close>: several calls through \<^emph>\<open>one\<close> closure, before the next
    render (an event handler that calls \<^verbatim>\<open>onNavigate\<close> more than once).

  The lemmas characterise one call as a record update, give the value of every
  hook after a sequence of calls, show that going to the auth page and back
  returns to the page one came from, and show where a batch differs from a
  sequence.
\<close>

section \<open>The callback\<close>

definition navigate :: "Page \<Rightarrow> Page \<Rightarrow> action list" where
  "navigate cur page =
     (if page = auth then [SetPreviousPage cur] else [])
       @ [SetCurrentPage page, ScrollTo 0 0]"

definition do_navigate :: "app_state \<Rightarrow> Page \<Rightarrow> app_state" where
  "do_navigate s page = run_actions s (navigate (currentPage s) page)"

definition navigate_seq :: "app_state \<Rightarrow> Page list \<Rightarrow> app_state" where
  "navigate_seq s pages = foldl do_navigate s pages"

definition navigate_batch :: "Page \<Rightarrow> Page list \<Rightarrow> action list" where
  "navigate_batch cur pages = concat (map (navigate cur) pages)"

declare navigate_def [cmd_defs]

section \<open>One call\<close>

lemma run_navigate:
  "run_actions s (navigate cur page) =
     s\<lparr> previousPage := (if page = auth then cur else previousPage s),
        currentPage := page,
        scrollCalls := scrollCalls s @ [(0, 0)] \<rparr>"
  by (simp add: navigate_def)

lemma run_navigate_simps [simp]:
  "currentPage (run_actions s (navigate cur page)) = page"
  "previousPage (run_actions s (navigate cur page)) = (if page = auth then cur else previousPage s)"
  "scrollCalls (run_actions s (navigate cur page)) = scrollCalls s @ [(0, 0)]"
  "isAppInitializing (run_actions s (navigate cur page)) = isAppInitializing s"
  "prevUserRef (run_actions s (navigate cur page)) = prevUserRef s"
  by (simp_all add: run_navigate)

lemma do_navigate_eq:
  "do_navigate s page =
     s\<lparr> previousPage := (if page = auth then currentPage s else previousPage s),
        currentPage := page,
        scrollCalls := scrollCalls s @ [(0, 0)] \<rparr>"
  by (simp add: do_navigate_def run_navigate)

lemma do_navigate_simps [simp]:
  "currentPage (do_navigate s page) = page"
  "previousPage (do_navigate s page) = (if page = auth then currentPage s else previousPage s)"
  "scrollCalls (do_navigate s page) = scrollCalls s @ [(0, 0)]"
  by (simp_all add: do_navigate_eq)

lemma do_navigate_frame [simp, frame]:
  "isAppInitializing (do_navigate s page) = isAppInitializing s"
  "prevUserRef (do_navigate s page) = prevUserRef s"
  by (simp_all add: do_navigate_eq)

lemma navigate_writes_currentPage [simp]:
  "last_write writes_currentPage d (navigate cur page) = page"
  by (simp add: navigate_def)

lemma navigate_writes_previousPage [simp]:
  "last_write writes_previousPage d (navigate cur page) = (if page = auth then cur else d)"
  by (simp add: navigate_def)

section \<open>Sequences of calls\<close>

lemma navigate_seq_Nil [simp]: "navigate_seq s [] = s"
  by (simp add: navigate_seq_def)

lemma navigate_seq_Cons [simp]:
  "navigate_seq s (p # ps) = navigate_seq (do_navigate s p) ps"
  by (simp add: navigate_seq_def)

lemma navigate_seq_append [simp]:
  "navigate_seq s (ps @ qs) = navigate_seq (navigate_seq s ps) qs"
  by (simp add: navigate_seq_def)

lemma currentPage_navigate_seq:
  "currentPage (navigate_seq s ps) = last (currentPage s # ps)"
  by (induction ps arbitrary: s) simp_all

lemma previousPage_navigate_seq_no_auth:
  "auth \<notin> set ps \<Longrightarrow> previousPage (navigate_seq s ps) = previousPage s"
  by (induction ps arbitrary: s) auto

lemma previousPage_navigate_seq_auth:
  "auth \<notin> set qs \<Longrightarrow>
     previousPage (navigate_seq s (ps @ auth # qs)) = last (currentPage s # ps)"
  by (simp add: previousPage_navigate_seq_no_auth currentPage_navigate_seq)

lemma navigate_seq_frame [simp, frame]:
  "isAppInitializing (navigate_seq s ps) = isAppInitializing s"
  "prevUserRef (navigate_seq s ps) = prevUserRef s"
  by (induction ps arbitrary: s) simp_all

section \<open>Batches of calls through one closure\<close>

lemma navigate_batch_Nil [simp]: "navigate_batch cur [] = []"
  by (simp add: navigate_batch_def)

lemma navigate_batch_Cons [simp]:
  "navigate_batch cur (p # ps) = navigate cur p @ navigate_batch cur ps"
  by (simp add: navigate_batch_def)

lemma currentPage_navigate_batch:
  "currentPage (run_actions s (navigate_batch cur ps)) = last (currentPage s # ps)"
  by (induction ps arbitrary: s) (simp_all add: run_navigate)

lemma previousPage_navigate_batch:
  "previousPage (run_actions s (navigate_batch cur ps)) =
     (if auth \<in> set ps then cur else previousPage s)"
  by (induction ps arbitrary: s) (simp_all add: run_navigate)

text \<open>A batch of one call through the closure of the current render is that call.\<close>

lemma navigate_batch_single:
  "run_actions s (navigate_batch (currentPage s) [p]) = do_navigate s p"
  by (simp add: do_navigate_def)

section \<open>Batch against sequence\<close>

lemma navigate_batch_eq_seq_iff:
  "run_actions s (navigate_batch (currentPage s) ps) = navigate_seq s ps \<longleftrightarrow>
     previousPage (navigate_seq s ps) = (if auth \<in> set ps then currentPage s else previousPage s)"
proof -
  let ?b = "run_actions s (navigate_batch (currentPage s) ps)"
  let ?q = "navigate_seq s ps"
  have cur: "currentPage ?b = currentPage ?q"
    by (simp add: currentPage_navigate_batch currentPage_navigate_seq)
  have scr: "scrollCalls ?b = scrollCalls ?q"
    by (induction ps arbitrary: s rule: rev_induct)
      (simp_all add: navigate_batch_def run_navigate)
  have ini: "isAppInitializing ?b = isAppInitializing ?q"
    by (induction ps rule: rev_induct) (simp_all add: navigate_batch_def run_navigate)
  have ref: "prevUserRef ?b = prevUserRef ?q"
    by (induction ps rule: rev_induct) (simp_all add: navigate_batch_def run_navigate)
  have "?b = ?q \<longleftrightarrow> previousPage ?b = previousPage ?q"
    using cur scr ini ref by (auto intro: app_state.equality)
  then show ?thesis
    by (simp add: previousPage_navigate_batch eq_commute)
qed

lemma navigate_batch_eq_seq_no_auth:
  "auth \<notin> set ps \<Longrightarrow> run_actions s (navigate_batch (currentPage s) ps) = navigate_seq s ps"
  by (simp add: navigate_batch_eq_seq_iff previousPage_navigate_seq_no_auth)

section \<open>The auth page never becomes the page to go back to\<close>

text \<open>
  \<open>previousPage\<close> is written only with a captured \<open>currentPage\<close>. As long as no
  closure that captured the auth page is asked to go to the auth page again,
  \<open>previousPage\<close> is never the auth page, so \<^verbatim>\<open>onNavigateBack\<close> always leaves
  the auth page.
\<close>

definition back_target_ok :: "app_state \<Rightarrow> bool" where
  "back_target_ok s \<longleftrightarrow> previousPage s \<noteq> auth"

declare back_target_ok_def [inv_defs]

lemma back_target_ok_mount [simp]: "back_target_ok (mount ctx)"
  by (simp add: back_target_ok_def mount_def)

lemma back_target_ok_run_navigate:
  "back_target_ok s \<Longrightarrow> cur \<noteq> auth \<or> page \<noteq> auth \<Longrightarrow>
     back_target_ok (run_actions s (navigate cur page))"
  by (auto simp: back_target_ok_def run_navigate)

lemma back_target_ok_do_navigate:
  "back_target_ok s \<Longrightarrow> currentPage s \<noteq> auth \<or> page \<noteq> auth \<Longrightarrow>
     back_target_ok (do_navigate s page)"
  by (simp add: do_navigate_def back_target_ok_run_navigate)

lemma back_target_ok_back:
  "back_target_ok s \<Longrightarrow> back_target_ok (do_navigate s (previousPage s))"
  by (simp add: back_target_ok_def)

section \<open>The window is only ever scrolled to the top\<close>

definition scrolls_ok :: "app_state \<Rightarrow> bool" where
  "scrolls_ok s \<longleftrightarrow> set (scrollCalls s) \<subseteq> {(0, 0)}"

declare scrolls_ok_def [inv_defs]

lemma scrolls_ok_mount [simp]: "scrolls_ok (mount ctx)"
  by (simp add: scrolls_ok_def mount_def)

lemma scrolls_ok_run_navigate [simp]:
  "scrolls_ok (run_actions s (navigate cur page)) = scrolls_ok s"
  by (simp add: scrolls_ok_def run_navigate)

lemma scrolls_ok_do_navigate [simp]: "scrolls_ok (do_navigate s page) = scrolls_ok s"
  by (simp add: do_navigate_def)

lemma scrolls_ok_update [simp]:
  "scrolls_ok (s\<lparr>isAppInitializing := b\<rparr>) = scrolls_ok s"
  "scrolls_ok (s\<lparr>prevUserRef := u\<rparr>) = scrolls_ok s"
  by (simp_all add: scrolls_ok_def)

lemma back_target_ok_update [simp]:
  "back_target_ok (s\<lparr>isAppInitializing := b\<rparr>) = back_target_ok s"
  "back_target_ok (s\<lparr>prevUserRef := u\<rparr>) = back_target_ok s"
  by (simp_all add: back_target_ok_def)

section \<open>Sample values\<close>

text \<open>A signed-out context and a user, for the closed instances below and in later theories.\<close>

definition signed_out :: contexts where
  "signed_out = \<lparr> currentUser = None, isAuthLoading = False, isTranslationsLoading = False \<rparr>"

definition alice :: User where
  "alice = \<lparr> id_User = ''u1'', name_User = ''Alice'', email = ''alice@example.org'',
     password = None \<rparr>"

definition signed_in :: contexts where
  "signed_in = \<lparr> currentUser = Some alice, isAuthLoading = False, isTranslationsLoading = False \<rparr>"

lemma sample_contexts [simp]:
  "currentUser signed_out = None"
  "currentUser signed_in = Some alice"
  "isAuthLoading signed_out = False"
  "isAuthLoading signed_in = False"
  "isTranslationsLoading signed_out = False"
  "isTranslationsLoading signed_in = False"
  by (simp_all add: signed_out_def signed_in_def)

lemma mount_simps [simp]:
  "currentPage (mount ctx) = home"
  "previousPage (mount ctx) = home"
  "isAppInitializing (mount ctx) = True"
  "prevUserRef (mount ctx) = currentUser ctx"
  "scrollCalls (mount ctx) = []"
  by (simp_all add: mount_def)

section \<open>Properties of navigation\<close>

text \<open>
  \<^bold>\<open>C8\<close> (functional). After a call \<^verbatim>\<open>navigate(p)\<close> the current page is \<open>p\<close>,
  whatever calls came before it, and whether the calls go through the closure
  of the render they happen in (\<open>navigate_seq\<close>) or all through one older
  closure (\<open>navigate_batch\<close>).
\<close>

theorem navigate_lands_on_argument:
  "currentPage (navigate_seq s (ps @ [p])) = p \<and>
   currentPage (run_actions s (navigate_batch cur (ps @ [p]))) = p"
  by (simp add: currentPage_navigate_batch)

text \<open>
  \<^bold>\<open>C3\<close> (functional). When the last navigation to the auth page in a sequence
  of calls is preceded by the calls \<open>ps\<close>, the page to go back to is the page
  that was current just before that navigation: the last of \<open>ps\<close>, or the
  page the sequence started on when \<open>ps\<close> is empty. Later navigation to other
  pages does not change it.
\<close>

theorem previousPage_is_page_before_auth:
  assumes "auth \<notin> set qs"
  shows "previousPage (navigate_seq s (ps @ auth # qs)) = last (currentPage s # ps)"
  using assms by (rule previousPage_navigate_seq_auth)

theorem previousPage_is_page_before_auth_witness:
  "previousPage (navigate_seq (mount signed_out) ([chat, learn] @ auth # [home, tracker])) = learn"
  using previousPage_is_page_before_auth [of "[home, tracker]" "mount signed_out" "[chat, learn]"]
  by simp

text \<open>
  \<^bold>\<open>C25\<close> (safety). Navigation to a page other than the auth page never
  writes \<open>previousPage\<close>, through the closure of the current render or through
  an older one.
\<close>

theorem previousPage_kept_without_auth:
  assumes "auth \<notin> set ps"
  shows "previousPage (navigate_seq s ps) = previousPage s \<and>
         previousPage (run_actions s (navigate_batch cur ps)) = previousPage s"
  using assms
  by (simp add: previousPage_navigate_seq_no_auth previousPage_navigate_batch)

theorem previousPage_kept_without_auth_witness:
  "previousPage (navigate_seq (do_navigate (mount signed_out) auth) [chat, profile]) = home \<and>
   previousPage (run_actions (do_navigate (mount signed_out) auth)
      (navigate_batch auth [chat, profile])) = home"
  using previousPage_kept_without_auth
    [of "[chat, profile]" "do_navigate (mount signed_out) auth" auth]
  by simp

text \<open>
  Every call of \<^verbatim>\<open>navigate\<close> scrolls the window to the
  top exactly once: after \<open>n\<close> calls the log of \<^verbatim>\<open>window.scrollTo\<close> has grown
  by \<open>n\<close> calls with the arguments \<open>(0, 0)\<close>.
\<close>

theorem navigate_scrolls_to_top:
  "scrollCalls (navigate_seq s ps) = scrollCalls s @ replicate (length ps) (0, 0)"
  by (induction ps arbitrary: s) (simp_all add: replicate_append_same)

text \<open>
  \<^bold>\<open>C38\<close> (equivalence). Several calls through one closure, before the next
  render, write the page that closure captured into \<open>previousPage\<close>, not the
  page the earlier calls of the batch navigated to. So a batch through the
  closure of the current render whose last call to the auth page comes after
  the calls \<open>xs\<close> ends in the same state as the sequence of the same calls
  exactly when \<open>xs\<close> is empty or ends on the page the batch started on.
\<close>

theorem navigate_batch_agrees_with_seq_iff:
  assumes "auth \<notin> set ys"
  shows "run_actions s (navigate_batch (currentPage s) (xs @ auth # ys))
           = navigate_seq s (xs @ auth # ys)
         \<longleftrightarrow> last (currentPage s # xs) = currentPage s"
  using assms
  by (simp add: navigate_batch_eq_seq_iff previousPage_navigate_seq_auth
      del: navigate_seq_append navigate_seq_Cons last.simps)

theorem navigate_batch_agrees_with_seq_iff_witness:
  "run_actions (mount signed_out) (navigate_batch home ([chat] @ auth # []))
     \<noteq> navigate_seq (mount signed_out) ([chat] @ auth # [])"
  using navigate_batch_agrees_with_seq_iff [of "[]" "mount signed_out" "[chat]"]
  by simp

end
