(* ===== verification/Watcher.thy ===== *)
theory Watcher
  imports Navigation
begin

text \<open>
  The identity-transition effect of \<^verbatim>\<open>AppContent\<close> (\<^verbatim>\<open>src/App.tsx\<close>, lines
  54-69): the body of the second \<^verbatim>\<open>useEffect\<close>.

  The body reads \<^verbatim>\<open>prevUserRef.current\<close> when it runs, and \<^verbatim>\<open>currentUser\<close>,
  \<^verbatim>\<open>currentPage\<close> and \<^verbatim>\<open>navigate\<close> as the render that created it saw them:
  these are the three arguments of \<open>watcher\<close> (the closure \<^verbatim>\<open>navigate\<close> of
  that render has captured the same \<open>currentPage\<close>). \<open>watch\<close> runs the body
  of the current render on the state.

  The lemmas give the state after one run as a record update, the two
  redirects and the cases without one, and show that a second run with the
  same user changes nothing, which is what makes the dependency array of the
  effect safe (theory \<open>Effects\<close>).
\<close>

section \<open>The effect body\<close>

definition protectedPages :: "Page list" where
  "protectedPages = [profile, tracker]"

definition watcher :: "User option \<Rightarrow> User option \<Rightarrow> Page \<Rightarrow> action list" where
  "watcher prev usr cur =
     (if \<not> truthy prev \<and> truthy usr then
        (if cur = auth then navigate cur home else [])
      else if truthy prev \<and> \<not> truthy usr then
        (if List.member protectedPages cur then navigate cur home else [])
      else [])
     @ [SetPrevUserRef usr]"

definition watch :: "app_state \<Rightarrow> User option \<Rightarrow> app_state" where
  "watch s usr = run_actions s (watcher (prevUserRef s) usr (currentPage s))"

declare watcher_def [cmd_defs]

section \<open>When the effect redirects\<close>

text \<open>
  \<open>redirects prev usr cur\<close> holds when the body calls \<^verbatim>\<open>navigate('home')\<close>:
  on the edge from no user to a user while on the auth page, and on the edge
  from a user to no user while on a protected page.
\<close>

definition redirects :: "User option \<Rightarrow> User option \<Rightarrow> Page \<Rightarrow> bool" where
  "redirects prev usr cur \<longleftrightarrow>
     (prev = None \<and> usr \<noteq> None \<and> cur = auth) \<or>
     (prev \<noteq> None \<and> usr = None \<and> (cur = profile \<or> cur = tracker))"

lemma member_protectedPages [simp]:
  "List.member protectedPages p \<longleftrightarrow> p = profile \<or> p = tracker"
  by (auto simp: protectedPages_def)

lemma set_protectedPages [simp]: "set protectedPages = {profile, tracker}"
  by (simp add: protectedPages_def)

lemma watcher_eq:
  "watcher prev usr cur =
     (if redirects prev usr cur then navigate cur home else []) @ [SetPrevUserRef usr]"
  by (auto simp: watcher_def redirects_def truthy_iff)

lemma redirects_same_presence:
  "prev = None \<longleftrightarrow> usr = None \<Longrightarrow> \<not> redirects prev usr cur"
  by (cases prev; cases usr) (simp_all add: redirects_def)

lemma redirects_refl [simp]: "\<not> redirects usr usr cur"
  by (cases usr) (simp_all add: redirects_def)

lemma redirects_home [simp]: "\<not> redirects prev usr home"
  by (simp add: redirects_def)

section \<open>One run\<close>

lemma watch_eq:
  "watch s usr =
     (if redirects (prevUserRef s) usr (currentPage s) then do_navigate s home else s)
       \<lparr>prevUserRef := usr\<rparr>"
  by (simp add: watch_def watcher_eq do_navigate_def)

lemma watch_simps [simp]:
  "prevUserRef (watch s usr) = usr"
  "previousPage (watch s usr) = previousPage s"
  "isAppInitializing (watch s usr) = isAppInitializing s"
  "currentPage (watch s usr) =
     (if redirects (prevUserRef s) usr (currentPage s) then home else currentPage s)"
  "scrollCalls (watch s usr) =
     (if redirects (prevUserRef s) usr (currentPage s) then scrollCalls s @ [(0, 0)]
      else scrollCalls s)"
  by (simp_all add: watch_eq)

lemma watch_no_redirect:
  "\<not> redirects (prevUserRef s) usr (currentPage s) \<Longrightarrow> watch s usr = s\<lparr>prevUserRef := usr\<rparr>"
  by (simp add: watch_eq)

lemma watch_redirect:
  "redirects (prevUserRef s) usr (currentPage s) \<Longrightarrow>
     watch s usr = (do_navigate s home)\<lparr>prevUserRef := usr\<rparr>"
  by (simp add: watch_eq)

lemma watch_synced [simp]: "prevUserRef s = usr \<Longrightarrow> watch s usr = s"
  by (simp add: watch_eq)

lemma watch_watch [simp]: "watch (watch s usr) usr = watch s usr"
  by simp

lemma back_target_ok_watch [simp]: "back_target_ok (watch s usr) = back_target_ok s"
  by (simp add: back_target_ok_def)

lemma scrolls_ok_watch [simp]: "scrolls_ok (watch s usr) = scrolls_ok s"
  by (simp add: watch_eq)

section \<open>Properties of the watcher\<close>

text \<open>
  \<^bold>\<open>C7\<close> (functional). When a user appears (the remembered user is absent and
  the current one present) while the auth page is shown, the effect navigates
  home; it leaves \<open>previousPage\<close> as it was and remembers the new user.
\<close>

theorem login_on_auth_redirects_home:
  assumes "prevUserRef s = None" and "currentPage s = auth"
  shows "currentPage (watch s (Some u)) = home \<and>
         previousPage (watch s (Some u)) = previousPage s \<and>
         prevUserRef (watch s (Some u)) = Some u"
  using assms by (simp add: redirects_def)

theorem login_on_auth_redirects_home_witness:
  "currentPage (watch (do_navigate (mount signed_out) auth) (Some alice)) = home \<and>
   previousPage (watch (do_navigate (mount signed_out) auth) (Some alice)) = home \<and>
   prevUserRef (watch (do_navigate (mount signed_out) auth) (Some alice)) = Some alice"
  using login_on_auth_redirects_home [of "do_navigate (mount signed_out) auth" alice]
  by simp

text \<open>
  \<^bold>\<open>C4\<close> (safety). When the user disappears (the remembered user is present and
  the current one absent), the page shown afterwards is not a protected page:
  from \<open>profile\<close> and \<open>tracker\<close> the effect navigates home, and every other page
  stays.
\<close>

theorem logout_leaves_protected_pages:
  assumes "prevUserRef s = Some u"
  shows "currentPage (watch s None) \<notin> set protectedPages \<and>
         currentPage (watch s None) =
           (if currentPage s \<in> set protectedPages then home else currentPage s)"
  using assms by (auto simp: redirects_def)

theorem logout_leaves_protected_pages_witness:
  "currentPage (watch (do_navigate (mount signed_in) profile) None) \<notin> set protectedPages \<and>
   currentPage (watch (do_navigate (mount signed_in) profile) None) =
     (if currentPage (do_navigate (mount signed_in) profile) \<in> set protectedPages then home
      else currentPage (do_navigate (mount signed_in) profile))"
  using logout_leaves_protected_pages [of "do_navigate (mount signed_in) profile" alice]
  by simp

text \<open>
  \<^bold>\<open>C26\<close> (functional). Without an edge (the remembered and the current user
  are both absent or both present, the same user or another one) the effect
  only remembers the current user: no hook of the page changes and the window
  is not scrolled.
\<close>

theorem no_edge_no_navigation:
  assumes "prevUserRef s = None \<longleftrightarrow> usr = None"
  shows "watch s usr = s\<lparr>prevUserRef := usr\<rparr>"
  using assms by (simp add: watch_no_redirect redirects_same_presence)

theorem no_edge_no_navigation_witness:
  "watch (do_navigate (mount signed_in) profile) (Some (alice\<lparr>name_User := ''Alicia''\<rparr>))
     = (do_navigate (mount signed_in) profile)
         \<lparr>prevUserRef := Some (alice\<lparr>name_User := ''Alicia''\<rparr>)\<rparr>"
  using no_edge_no_navigation
    [of "do_navigate (mount signed_in) profile" "Some (alice\<lparr>name_User := ''Alicia''\<rparr>)"]
  by simp

text \<open>
  One run brings the effect to rest: whatever the state and
  the user, a second run with the same user changes nothing, and after a run no
  page makes the effect redirect for that user.
\<close>

theorem watch_idempotent:
  "watch (watch s usr) usr = watch s usr \<and> \<not> redirects (prevUserRef (watch s usr)) usr p"
  by simp

end
