(* ===== verification/Render.thy ===== *)
theory Render
  imports Watcher
begin

text \<open>
  What \<^verbatim>\<open>AppContent\<close> returns (\<^verbatim>\<open>src/App.tsx\<close>, lines 71-106) and the root
  component \<^verbatim>\<open>App\<close> (lines 110-118).

  A rendered element is a value: \<open>page_element\<close> has one constructor per page
  component, carrying the callback the source passes to it as a prop. The
  callback \<^verbatim>\<open>onNavigate={navigate}\<close> is the closure \<open>navigate cur\<close> of the
  render, a function from the page asked for to the writes of the call;
  \<^verbatim>\<open>onNavigateBack={() => navigate(previousPage)}\<close> has captured
  \<open>previousPage\<close> as well and takes no argument, so it is the list of writes
  itself. \<open>element\<close> is the loading indicator or a page inside the theme
  provider; markup and styling are not modelled.

  The page components are not part of the sources. All they can do to the
  controller is call the callback they were given: \<open>ui_event\<close> names the two
  kinds of call and \<open>dispatch\<close> gives the writes a call performs on a rendered
  element, or \<open>None\<close> when the element offers no such callback.

  The \<^verbatim>\<open>default\<close> branch of the \<^verbatim>\<open>switch\<close> in \<^verbatim>\<open>renderPage\<close> has no
  counterpart: \<open>Page\<close> is a closed datatype and the eight cases are exhaustive.
\<close>

section \<open>Elements\<close>

datatype page_element =
    HomePage "Page \<Rightarrow> action list"
  | ChatPage "Page \<Rightarrow> action list"
  | LearnPage "Page \<Rightarrow> action list"
  | DirectoryPage "Page \<Rightarrow> action list"
  | SymptomTrackerPage "Page \<Rightarrow> action list"
  | CommunityPage "Page \<Rightarrow> action list"
  | ProfilePage "Page \<Rightarrow> action list"
  | AuthPage "action list"

datatype element =
    LoadingIndicator
  | ThemeProvider page_element

section \<open>Rendering\<close>

definition renderPage :: "Page \<Rightarrow> Page \<Rightarrow> page_element" where
  "renderPage cur prev =
     (case cur of
        home \<Rightarrow> HomePage (navigate cur)
      | chat \<Rightarrow> ChatPage (navigate cur)
      | learn \<Rightarrow> LearnPage (navigate cur)
      | directory \<Rightarrow> DirectoryPage (navigate cur)
      | tracker \<Rightarrow> SymptomTrackerPage (navigate cur)
      | community \<Rightarrow> CommunityPage (navigate cur)
      | profile \<Rightarrow> ProfilePage (navigate cur)
      | auth \<Rightarrow> AuthPage (navigate cur prev))"

definition loading :: "contexts \<Rightarrow> app_state \<Rightarrow> bool" where
  "loading ctx s \<longleftrightarrow> isAuthLoading ctx \<or> isAppInitializing s \<or> isTranslationsLoading ctx"

definition AppContent :: "contexts \<Rightarrow> app_state \<Rightarrow> element" where
  "AppContent ctx s =
     (if loading ctx s then LoadingIndicator
      else ThemeProvider (renderPage (currentPage s) (previousPage s)))"

definition App :: "contexts \<Rightarrow> app_state \<Rightarrow> element" where
  "App ctx s = AppContent ctx s"

section \<open>Calls from the page components\<close>

datatype ui_event = OnNavigate Page | OnNavigateBack

fun handler :: "page_element \<Rightarrow> ui_event \<Rightarrow> action list option" where
  "handler (HomePage nav) (OnNavigate p) = Some (nav p)"
| "handler (ChatPage nav) (OnNavigate p) = Some (nav p)"
| "handler (LearnPage nav) (OnNavigate p) = Some (nav p)"
| "handler (DirectoryPage nav) (OnNavigate p) = Some (nav p)"
| "handler (SymptomTrackerPage nav) (OnNavigate p) = Some (nav p)"
| "handler (CommunityPage nav) (OnNavigate p) = Some (nav p)"
| "handler (ProfilePage nav) (OnNavigate p) = Some (nav p)"
| "handler (AuthPage back) OnNavigateBack = Some back"
| "handler (AuthPage back) (OnNavigate p) = None"
| "handler _ OnNavigateBack = None"

fun dispatch :: "element \<Rightarrow> ui_event \<Rightarrow> action list option" where
  "dispatch LoadingIndicator e = None"
| "dispatch (ThemeProvider pe) e = handler pe e"

text \<open>The page a page component stands for.\<close>

fun page_of :: "page_element \<Rightarrow> Page" where
  "page_of (HomePage _) = home"
| "page_of (ChatPage _) = chat"
| "page_of (LearnPage _) = learn"
| "page_of (DirectoryPage _) = directory"
| "page_of (SymptomTrackerPage _) = tracker"
| "page_of (CommunityPage _) = community"
| "page_of (ProfilePage _) = profile"
| "page_of (AuthPage _) = auth"

fun shown :: "element \<Rightarrow> Page option" where
  "shown LoadingIndicator = None"
| "shown (ThemeProvider pe) = Some (page_of pe)"

section \<open>What is rendered\<close>

lemma page_of_renderPage [simp]: "page_of (renderPage cur prev) = cur"
  by (cases cur) (simp_all add: renderPage_def)

lemma handler_renderPage:
  "handler (renderPage cur prev) e =
     (case e of
        OnNavigate p \<Rightarrow> if cur = auth then None else Some (navigate cur p)
      | OnNavigateBack \<Rightarrow> if cur = auth then Some (navigate cur prev) else None)"
  by (cases cur; cases e) (simp_all add: renderPage_def)

lemma AppContent_loading [simp]: "loading ctx s \<Longrightarrow> AppContent ctx s = LoadingIndicator"
  by (simp add: AppContent_def)

lemma AppContent_ready [simp]:
  "\<not> loading ctx s \<Longrightarrow>
     AppContent ctx s = ThemeProvider (renderPage (currentPage s) (previousPage s))"
  by (simp add: AppContent_def)

lemma loading_do_navigate [simp]: "loading ctx (do_navigate s p) = loading ctx s"
  by (simp add: loading_def)

lemma loading_watch [simp]: "loading ctx (watch s usr) = loading ctx s"
  by (simp add: loading_def)

lemma shown_AppContent:
  "shown (AppContent ctx s) = (if loading ctx s then None else Some (currentPage s))"
  by simp

lemma dispatch_AppContent:
  "dispatch (AppContent ctx s) e =
     (if loading ctx s then None else handler (renderPage (currentPage s) (previousPage s)) e)"
  by simp

lemma dispatch_OnNavigate:
  "dispatch (AppContent ctx s) (OnNavigate p) =
     (if loading ctx s \<or> currentPage s = auth then None
      else Some (navigate (currentPage s) p))"
  by (simp add: dispatch_AppContent handler_renderPage)

lemma dispatch_OnNavigateBack:
  "dispatch (AppContent ctx s) OnNavigateBack =
     (if loading ctx s \<or> currentPage s \<noteq> auth then None
      else Some (navigate (currentPage s) (previousPage s)))"
  by (simp add: dispatch_AppContent handler_renderPage)

text \<open>A call through a callback of the current render keeps \<open>previousPage\<close> off the auth page.\<close>

lemma back_target_ok_dispatch:
  assumes "dispatch (AppContent ctx s) e = Some as" and "back_target_ok s"
  shows "back_target_ok (run_actions s as)"
proof (cases e)
  case (OnNavigate p)
  with assms(1) have "currentPage s \<noteq> auth" and "as = navigate (currentPage s) p"
    by (auto simp: dispatch_OnNavigate split: if_splits)
  with assms(2) show ?thesis
    by (simp add: back_target_ok_run_navigate)
next
  case OnNavigateBack
  with assms(1) have "as = navigate (currentPage s) (previousPage s)"
    by (auto simp: dispatch_OnNavigateBack split: if_splits)
  with assms(2) show ?thesis
    by (simp add: back_target_ok_def run_navigate)
qed

section \<open>Properties of rendering\<close>

text \<open>
  \<^bold>\<open>C19\<close> (functional). The readiness gate: \<^verbatim>\<open>App\<close> shows the loading indicator
  exactly while the identity provider is loading, the application is
  initialising or the translations are loading; otherwise it shows the
  component of the current page. While the indicator is shown no callback is
  offered, so no page component can navigate.
\<close>

theorem readiness_gate:
  "(App ctx s = LoadingIndicator \<longleftrightarrow>
      isAuthLoading ctx \<or> isAppInitializing s \<or> isTranslationsLoading ctx) \<and>
   shown (App ctx s) = (if App ctx s = LoadingIndicator then None else Some (currentPage s)) \<and>
   dispatch LoadingIndicator e = None"
  by (simp add: App_def AppContent_def loading_def)

text \<open>
  \<^bold>\<open>C39\<close> (roundtrip). From any page but the auth page, asking for the auth
  page through the callback of the rendered page and then calling the
  \<^verbatim>\<open>onNavigateBack\<close> of the auth page that is rendered next returns to the
  page one came from, and that page is still the page to go back to.
\<close>

theorem auth_round_trip:
  assumes "\<not> loading ctx s" and "currentPage s \<noteq> auth"
  shows "dispatch (App ctx s) (OnNavigate auth) = Some (navigate (currentPage s) auth) \<and>
         dispatch (App ctx (do_navigate s auth)) OnNavigateBack
           = Some (navigate auth (currentPage s)) \<and>
         currentPage (run_actions (do_navigate s auth) (navigate auth (currentPage s)))
           = currentPage s \<and>
         previousPage (run_actions (do_navigate s auth) (navigate auth (currentPage s)))
           = currentPage s"
  using assms by (simp add: App_def handler_renderPage run_navigate)

theorem auth_round_trip_witness:
  "currentPage (run_actions (do_navigate ((mount signed_in)\<lparr>isAppInitializing := False\<rparr>) auth)
      (navigate auth home)) = home \<and>
   dispatch (App signed_in (do_navigate ((mount signed_in)\<lparr>isAppInitializing := False\<rparr>) auth))
      OnNavigateBack = Some (navigate auth home)"
  using auth_round_trip [of signed_in "(mount signed_in)\<lparr>isAppInitializing := False\<rparr>"]
  by (simp add: loading_def)

text \<open>
  Which calls a rendered element accepts: the auth page
  offers only \<^verbatim>\<open>onNavigateBack\<close>, every other page only \<^verbatim>\<open>onNavigate\<close>, and
  every accepted call is a call of the \<^verbatim>\<open>navigate\<close> closure of the render.
\<close>

theorem callbacks_offered:
  "dispatch (App ctx s) e =
     (if loading ctx s then None
      else case e of
        OnNavigate p \<Rightarrow>
          if currentPage s = auth then None else Some (navigate (currentPage s) p)
      | OnNavigateBack \<Rightarrow>
          if currentPage s = auth then Some (navigate (currentPage s) (previousPage s)) else None)"
  by (simp add: App_def handler_renderPage)

end
