(* ===== verification/Effects.thy ===== *)
theory Effects
  imports Render
begin

text \<open>
  When the identity effect runs (\<^verbatim>\<open>src/App.tsx\<close>, lines 54 and 69): React
  runs the body of \<^verbatim>\<open>useEffect(body, [currentUser, currentPage, navigate])\<close>
  after the first render and after every later render in which one of the
  three dependencies differs from its value at the render before. \<^verbatim>\<open>navigate\<close>
  is a new closure exactly when \<open>currentPage\<close> changed (its own dependency
  array is \<^verbatim>\<open>[currentPage]\<close>), so the dependencies are the pair of
  \<open>currentUser\<close> and \<open>currentPage\<close>. Users are compared by value here and by
  reference in React; the effect body may therefore run more often in the
  program than in the model, which \<open>hooks_flush_effects\<close> shows to be
  harmless.

  \<^item> \<open>component\<close>: the hooks and the dependencies of the last render (\<open>None\<close>
    before the first render);
  \<^item> \<open>flush_effects\<close>: the effects of one render;
  \<^item> \<open>settle\<close>: renders until a render's effects leave the rendered state as
    it is. A write to a \<^verbatim>\<open>useState\<close> hook causes another render, a write to
    the \<^verbatim>\<open>useRef\<close> does not.

  The lemmas show that \<open>settle\<close> ends after at most two renders in a state
  where nothing is pending, that the value remembered in \<^verbatim>\<open>prevUserRef\<close> is
  always the user of the render before, and that in such states the dependency
  array changes nothing: settling is one run of the effect body.
\<close>

section \<open>Renders and effects\<close>

record component =
  hooks :: app_state
  watcherDeps :: "(User option \<times> Page) option"

definition rendered_state :: "app_state \<Rightarrow> Page \<times> Page \<times> bool" where
  "rendered_state s = (currentPage s, previousPage s, isAppInitializing s)"

definition deps_changed :: "contexts \<Rightarrow> component \<Rightarrow> bool" where
  "deps_changed ctx c \<longleftrightarrow> watcherDeps c \<noteq> Some (currentUser ctx, currentPage (hooks c))"

definition flush_effects :: "contexts \<Rightarrow> component \<Rightarrow> component" where
  "flush_effects ctx c =
     (if deps_changed ctx c
      then \<lparr> hooks = watch (hooks c) (currentUser ctx),
             watcherDeps = Some (currentUser ctx, currentPage (hooks c)) \<rparr>
      else c)"

definition pending_redirect :: "contexts \<Rightarrow> component \<Rightarrow> bool" where
  "pending_redirect ctx c \<longleftrightarrow>
     deps_changed ctx c \<and>
     redirects (prevUserRef (hooks c)) (currentUser ctx) (currentPage (hooks c))"

lemma rendered_state_flush_effects:
  "rendered_state (hooks (flush_effects ctx c)) = rendered_state (hooks c)
     \<longleftrightarrow> \<not> pending_redirect ctx c"
  by (auto simp: flush_effects_def pending_redirect_def rendered_state_def redirects_def)

lemma not_pending_after_flush [simp]: "\<not> pending_redirect ctx (flush_effects ctx c)"
  by (simp add: flush_effects_def pending_redirect_def deps_changed_def)

function settle :: "contexts \<Rightarrow> component \<Rightarrow> component" where
  "settle ctx c =
     (let c' = flush_effects ctx c in
      if rendered_state (hooks c') = rendered_state (hooks c) then c' else settle ctx c')"
  by pat_completeness auto
termination
proof (relation "measure (\<lambda>(ctx, c). if pending_redirect ctx c then 1 else 0)")
  show "wf (measure (\<lambda>(ctx, c). if pending_redirect ctx c then 1 else (0::nat)))"
    by simp
next
  fix ctx c c'
  assume "c' = flush_effects ctx c"
    and "rendered_state (hooks c') \<noteq> rendered_state (hooks c)"
  then show "((ctx, c'), (ctx, c)) \<in> measure (\<lambda>(ctx, c). if pending_redirect ctx c then 1 else 0)"
    by (simp add: rendered_state_flush_effects)
qed

declare settle.simps [simp del]

definition mount_component :: "contexts \<Rightarrow> component" where
  "mount_component ctx = settle ctx \<lparr> hooks = mount ctx, watcherDeps = None \<rparr>"

section \<open>Settling takes at most two renders\<close>

lemma settle_not_pending:
  "\<not> pending_redirect ctx c \<Longrightarrow> settle ctx c = flush_effects ctx c"
  by (subst settle.simps) (simp add: Let_def rendered_state_flush_effects)

lemma settle_pending:
  "pending_redirect ctx c \<Longrightarrow> settle ctx c = flush_effects ctx (flush_effects ctx c)"
  by (subst settle.simps)
    (simp add: Let_def rendered_state_flush_effects settle_not_pending)

lemma settle_eq:
  "settle ctx c =
     (if pending_redirect ctx c then flush_effects ctx (flush_effects ctx c)
      else flush_effects ctx c)"
  by (simp add: settle_pending settle_not_pending)

section \<open>States at rest\<close>

text \<open>
  A component is at rest for a context when its last render saw the current
  user and page and the effect has remembered that user.
\<close>

definition at_rest :: "contexts \<Rightarrow> component \<Rightarrow> bool" where
  "at_rest ctx c \<longleftrightarrow>
     watcherDeps c = Some (currentUser ctx, currentPage (hooks c)) \<and>
     prevUserRef (hooks c) = currentUser ctx"

text \<open>
  Between renders the remembered user is the user of the last render: the
  effect has run in that render, or the dependencies were the same and it had
  run before.
\<close>

definition ref_synced :: "component \<Rightarrow> bool" where
  "ref_synced c \<longleftrightarrow>
     (case watcherDeps c of None \<Rightarrow> True | Some (u, p) \<Rightarrow> prevUserRef (hooks c) = u)"

declare at_rest_def [inv_defs] ref_synced_def [inv_defs]

lemma at_rest_imp_ref_synced: "at_rest ctx c \<Longrightarrow> ref_synced c"
  by (simp add: at_rest_def ref_synced_def)

lemma at_rest_not_changed: "at_rest ctx c \<Longrightarrow> \<not> deps_changed ctx c"
  by (simp add: at_rest_def deps_changed_def)

lemma flush_effects_at_rest [simp]: "at_rest ctx c \<Longrightarrow> flush_effects ctx c = c"
  by (simp add: flush_effects_def at_rest_not_changed)

lemma ref_synced_flush_effects [simp]:
  "ref_synced c \<Longrightarrow> ref_synced (flush_effects ctx c)"
  by (simp add: flush_effects_def ref_synced_def)

lemma ref_synced_unmounted [simp]: "ref_synced \<lparr> hooks = s, watcherDeps = None \<rparr>"
  by (simp add: ref_synced_def)

lemma hooks_flush_effects:
  "ref_synced c \<Longrightarrow> hooks (flush_effects ctx c) = watch (hooks c) (currentUser ctx)"
  by (auto simp: flush_effects_def ref_synced_def deps_changed_def)

lemma watcherDeps_flush_effects:
  "watcherDeps (flush_effects ctx c) = Some (currentUser ctx, currentPage (hooks c))"
  by (simp add: flush_effects_def deps_changed_def)

lemma flush_effects_twice:
  assumes "ref_synced c"
  shows "flush_effects ctx (flush_effects ctx c) =
       \<lparr> hooks = watch (hooks c) (currentUser ctx),
         watcherDeps = Some (currentUser ctx, currentPage (watch (hooks c) (currentUser ctx))) \<rparr>"
proof -
  let ?c = "flush_effects ctx c"
  have h: "hooks ?c = watch (hooks c) (currentUser ctx)"
    using assms by (rule hooks_flush_effects)
  have "ref_synced ?c"
    using assms by simp
  then have "hooks (flush_effects ctx ?c) = watch (hooks ?c) (currentUser ctx)"
    by (rule hooks_flush_effects)
  moreover have "watcherDeps (flush_effects ctx ?c) = Some (currentUser ctx, currentPage (hooks ?c))"
    by (rule watcherDeps_flush_effects)
  ultimately show ?thesis
    by (intro component.equality) (simp_all add: h)
qed

lemma settle_synced_eq:
  assumes "ref_synced c"
  shows "settle ctx c =
     \<lparr> hooks = watch (hooks c) (currentUser ctx),
       watcherDeps = Some (currentUser ctx, currentPage (watch (hooks c) (currentUser ctx))) \<rparr>"
proof (cases "pending_redirect ctx c")
  case True
  with assms show ?thesis
    by (simp add: settle_pending flush_effects_twice)
next
  case False
  then have "currentPage (watch (hooks c) (currentUser ctx)) = currentPage (hooks c)"
    using assms
    by (auto simp: pending_redirect_def deps_changed_def ref_synced_def)
  moreover have "settle ctx c = flush_effects ctx c"
    using False by (rule settle_not_pending)
  ultimately show ?thesis
    using assms
    by (intro component.equality)
      (simp_all add: hooks_flush_effects watcherDeps_flush_effects)
qed

lemma hooks_settle: "ref_synced c \<Longrightarrow> hooks (settle ctx c) = watch (hooks c) (currentUser ctx)"
  by (simp add: settle_synced_eq)

lemma at_rest_settle: "ref_synced c \<Longrightarrow> at_rest ctx (settle ctx c)"
  by (simp add: settle_synced_eq at_rest_def)

lemma settle_at_rest [simp]: "at_rest ctx c \<Longrightarrow> settle ctx c = c"
  by (simp add: settle_eq pending_redirect_def at_rest_not_changed)

lemma at_rest_mount_component [simp]: "at_rest ctx (mount_component ctx)"
  by (simp add: mount_component_def at_rest_settle)

lemma hooks_mount_component [simp]: "hooks (mount_component ctx) = mount ctx"
  by (simp add: mount_component_def hooks_settle)

section \<open>Properties of the effect schedule\<close>

text \<open>
  \<^bold>\<open>C21\<close> (termination). The render loop ends: settling is one render or
  two, never more, and the state it ends in is a fixed point of the effects
  (a further render would run nothing that changes it).
\<close>

theorem settle_within_two_renders:
  "(settle ctx c = flush_effects ctx c \<or>
    settle ctx c = flush_effects ctx (flush_effects ctx c)) \<and>
   flush_effects ctx (settle ctx c) = settle ctx c"
proof -
  have fixp: "flush_effects ctx (flush_effects ctx d) = flush_effects ctx d"
    if "\<not> pending_redirect ctx d" for d
    using that
    by (auto simp: flush_effects_def pending_redirect_def deps_changed_def)
  show ?thesis
  proof (cases "pending_redirect ctx c")
    case True
    then show ?thesis
      by (simp add: settle_pending fixp)
  next
    case False
    then show ?thesis
      by (simp add: settle_not_pending fixp)
  qed
qed

text \<open>
  \<^bold>\<open>C20\<close> (equivalence). The dependency array is an optimisation only:
  whenever the remembered user is the user of the last render, rendering until
  the component settles has the effect of running the body of the identity
  effect exactly once on the hooks, and leaves the component at rest.
\<close>

theorem dependency_array_transparent:
  assumes "ref_synced c"
  shows "hooks (settle ctx c) = watch (hooks c) (currentUser ctx) \<and> at_rest ctx (settle ctx c)"
  using assms by (simp add: hooks_settle at_rest_settle)

theorem dependency_array_transparent_witness:
  "hooks (settle signed_in
      ((mount_component signed_out)\<lparr>hooks := do_navigate (mount signed_out) auth\<rparr>))
     = watch (do_navigate (mount signed_out) auth) (Some alice)"
  using dependency_array_transparent
    [of "(mount_component signed_out)\<lparr>hooks := do_navigate (mount signed_out) auth\<rparr>" signed_in]
    at_rest_mount_component [of signed_out]
  by (simp add: ref_synced_def at_rest_def)

end
