(* ===== verification/InitApp.thy ===== *)
theory InitApp
  imports AppState
begin

text \<open>
  The start-up initialisation of \<^verbatim>\<open>AppContent\<close> (\<^verbatim>\<open>src/App.tsx\<close>, lines 26-44):
  the first \<^verbatim>\<open>useEffect\<close>, whose empty dependency array makes it run once
  after the first render, and the \<^verbatim>\<open>async\<close> function \<^verbatim>\<open>initializeApp\<close> it calls.

  The function talks to three collaborators that are not part of the sources:
  \<^verbatim>\<open>getValue\<close> and \<^verbatim>\<open>setValue\<close> of the key-value store and \<^verbatim>\<open>generateImage\<close>.
  Each returns a promise, which settles as fulfilled with a value or as
  rejected with a thrown value (\<open>settled\<close>). The stored avatar and the
  generated image reference are strings.

  The function is modelled twice.
  \<^item> \<open>initializeApp\<close> is the whole run against collaborators that answer each
    call (\<open>collaborators\<close>): \<open>try_block\<close> is the body of \<^verbatim>\<open>try\<close>, with the
    thrown value as \<open>Inl\<close>; \<^verbatim>\<open>catch\<close> logs it; \<^verbatim>\<open>finally\<close> clears the flag. The
    result is the list of calls made, in order, and the writes to the hooks.
  \<^item> \<open>init_resume\<close> is the same function as the state machine the \<^verbatim>\<open>await\<close>s
    make of it: \<open>init_phase\<close> is the \<^verbatim>\<open>await\<close> the function is suspended at
    (with the local it still needs), \<open>resumption\<close> the settled promise that
    resumes it. This is the form the controller interleaves with other events.
  \<open>drive\<close> runs the state machine against collaborators; three resumptions are
  enough to finish, and the result is that of \<open>initializeApp\<close>.
\<close>

section \<open>Promises, calls and constants\<close>

datatype thrown = Thrown string

datatype 'a settled = Fulfilled 'a | Rejected thrown

datatype io_call =
    GetValue string
  | GenerateImage string
  | SetValue string string
  | ConsoleLog string
  | ConsoleError string thrown

definition avatarKey :: string where
  "avatarKey = ''aiAssistantAvatar''"

definition noAvatarMessage :: string where
  "noAvatarMessage = ''No AI assistant avatar found, generating one...''"

definition aiAvatarPrompt :: string where
  "aiAvatarPrompt = ''A modern, friendly AI assistant avatar for a dental health app. Stylized tooth logo subtly integrated with a sound wave or a gentle smile curve. Use a clean, minimalist design with a soft color palette of teal (#14b8a6), light blue (#38bdf8), and white. Smooth gradients. Flat 2D vector style. Centered in a circle.''"

definition initFailedMessage :: string where
  "initFailedMessage = ''Failed to initialize app data:''"

section \<open>The whole run\<close>

record collaborators =
  getValue_result :: "string \<Rightarrow> string option settled"
  generateImage_result :: "string \<Rightarrow> string settled"
  setValue_result :: "string \<Rightarrow> string \<Rightarrow> unit settled"

definition try_block :: "collaborators \<Rightarrow> (thrown + unit) \<times> io_call list" where
  "try_block env =
     (case getValue_result env avatarKey of
        Rejected e \<Rightarrow> (Inl e, [GetValue avatarKey])
      | Fulfilled aiAvatar \<Rightarrow>
          if \<not> truthy_string aiAvatar then
            (case generateImage_result env aiAvatarPrompt of
               Rejected e \<Rightarrow>
                 (Inl e, [GetValue avatarKey, ConsoleLog noAvatarMessage,
                          GenerateImage aiAvatarPrompt])
             | Fulfilled avatarUrl \<Rightarrow>
                 (case setValue_result env avatarKey avatarUrl of
                    Rejected e \<Rightarrow>
                      (Inl e, [GetValue avatarKey, ConsoleLog noAvatarMessage,
                               GenerateImage aiAvatarPrompt, SetValue avatarKey avatarUrl])
                  | Fulfilled _ \<Rightarrow>
                      (Inr (), [GetValue avatarKey, ConsoleLog noAvatarMessage,
                                GenerateImage aiAvatarPrompt, SetValue avatarKey avatarUrl])))
          else (Inr (), [GetValue avatarKey]))"

definition initializeApp :: "collaborators \<Rightarrow> io_call list \<times> action list" where
  "initializeApp env =
     (case try_block env of
        (Inl e, calls) \<Rightarrow>
          (calls @ [ConsoleError initFailedMessage e], [SetIsAppInitializing False])
      | (Inr _, calls) \<Rightarrow> (calls, [SetIsAppInitializing False]))"

section \<open>The function as a state machine\<close>

datatype init_phase =
    NotStarted
  | AwaitGetValue
  | AwaitGenerateImage
  | AwaitSetValue string
  | Finished

datatype resumption =
    GetValueSettled "string option settled"
  | GenerateImageSettled "string settled"
  | SetValueSettled "unit settled"

type_synonym init_step = "init_phase \<times> io_call list \<times> action list"

definition init_start :: init_step where
  "init_start = (AwaitGetValue, [GetValue avatarKey], [])"

definition finally_block :: "io_call list \<Rightarrow> init_step" where
  "finally_block calls = (Finished, calls, [SetIsAppInitializing False])"

definition catch_block :: "thrown \<Rightarrow> init_step" where
  "catch_block e = finally_block [ConsoleError initFailedMessage e]"

fun init_resume :: "init_phase \<Rightarrow> resumption \<Rightarrow> init_step option" where
  "init_resume AwaitGetValue (GetValueSettled (Fulfilled aiAvatar)) =
     Some (if \<not> truthy_string aiAvatar
           then (AwaitGenerateImage,
                 [ConsoleLog noAvatarMessage, GenerateImage aiAvatarPrompt], [])
           else finally_block [])"
| "init_resume AwaitGetValue (GetValueSettled (Rejected e)) = Some (catch_block e)"
| "init_resume AwaitGenerateImage (GenerateImageSettled (Fulfilled avatarUrl)) =
     Some (AwaitSetValue avatarUrl, [SetValue avatarKey avatarUrl], [])"
| "init_resume AwaitGenerateImage (GenerateImageSettled (Rejected e)) = Some (catch_block e)"
| "init_resume (AwaitSetValue avatarUrl) (SetValueSettled (Fulfilled u)) =
     Some (finally_block [])"
| "init_resume (AwaitSetValue avatarUrl) (SetValueSettled (Rejected e)) = Some (catch_block e)"
| "init_resume _ _ = None"

text \<open>The promise a phase waits for, as the collaborators settle it.\<close>

fun env_answer :: "collaborators \<Rightarrow> init_phase \<Rightarrow> resumption option" where
  "env_answer env AwaitGetValue = Some (GetValueSettled (getValue_result env avatarKey))"
| "env_answer env AwaitGenerateImage =
     Some (GenerateImageSettled (generateImage_result env aiAvatarPrompt))"
| "env_answer env (AwaitSetValue avatarUrl) =
     Some (SetValueSettled (setValue_result env avatarKey avatarUrl))"
| "env_answer env NotStarted = None"
| "env_answer env Finished = None"

fun drive :: "collaborators \<Rightarrow> nat \<Rightarrow> init_step \<Rightarrow> init_step" where
  "drive env 0 st = st"
| "drive env (Suc n) (ph, calls, acts) =
     (case env_answer env ph of
        None \<Rightarrow> (ph, calls, acts)
      | Some r \<Rightarrow>
          (case init_resume ph r of
             None \<Rightarrow> (ph, calls, acts)
           | Some (ph', cs, as) \<Rightarrow> drive env n (ph', calls @ cs, acts @ as)))"

section \<open>Phases\<close>

text \<open>How many resumptions a phase is away from the end, at most.\<close>

fun remaining :: "init_phase \<Rightarrow> nat" where
  "remaining NotStarted = 4"
| "remaining AwaitGetValue = 3"
| "remaining AwaitGenerateImage = 2"
| "remaining (AwaitSetValue avatarUrl) = 1"
| "remaining Finished = 0"

definition awaiting :: "init_phase \<Rightarrow> bool" where
  "awaiting ph \<longleftrightarrow> ph \<noteq> NotStarted \<and> ph \<noteq> Finished"

lemma awaiting_simps [simp]:
  "\<not> awaiting NotStarted"
  "awaiting AwaitGetValue"
  "awaiting AwaitGenerateImage"
  "awaiting (AwaitSetValue url)"
  "\<not> awaiting Finished"
  by (simp_all add: awaiting_def)

lemma finally_block_simps [simp]:
  "fst (finally_block calls) = Finished"
  "fst (snd (finally_block calls)) = calls"
  "snd (snd (finally_block calls)) = [SetIsAppInitializing False]"
  by (simp_all add: finally_block_def)

lemma catch_block_simps [simp]:
  "fst (catch_block e) = Finished"
  "fst (snd (catch_block e)) = [ConsoleError initFailedMessage e]"
  "snd (snd (catch_block e)) = [SetIsAppInitializing False]"
  by (simp_all add: catch_block_def)

lemma init_resume_Finished [simp]: "init_resume Finished r = None"
  by (cases r) simp_all

lemma init_resume_NotStarted [simp]: "init_resume NotStarted r = None"
  by (cases r) simp_all

text \<open>Every resumption brings the function strictly closer to its end.\<close>

lemma init_resume_remaining:
  "init_resume ph r = Some (ph', cs, as) \<Longrightarrow> remaining ph' < remaining ph"
  by (induction ph r rule: init_resume.induct)
    (auto simp: finally_block_def catch_block_def split: if_splits)

lemma remaining_started: "ph \<noteq> NotStarted \<Longrightarrow> remaining ph \<le> 3"
  by (cases ph) simp_all

text \<open>The flag is cleared exactly by the resumption that ends the function.\<close>

lemma init_resume_writes:
  "init_resume ph r = Some (ph', cs, as) \<Longrightarrow>
     as = (if ph' = Finished then [SetIsAppInitializing False] else [])"
  by (induction ph r rule: init_resume.induct)
    (auto simp: finally_block_def catch_block_def split: if_splits)

text \<open>The promise the collaborators settle is the one the phase waits for.\<close>

lemma env_answer_accepted:
  "awaiting ph \<Longrightarrow> \<exists>r st. env_answer env ph = Some r \<and> init_resume ph r = Some st"
proof (cases ph)
  case AwaitGetValue
  then show ?thesis
    by (cases "getValue_result env avatarKey") (simp_all add: finally_block_def catch_block_def)
next
  case AwaitGenerateImage
  then show ?thesis
    by (cases "generateImage_result env aiAvatarPrompt") (simp_all add: finally_block_def catch_block_def)
next
  case (AwaitSetValue url)
  then show ?thesis
    by (cases "setValue_result env avatarKey url") (simp_all add: finally_block_def catch_block_def)
qed simp_all

lemma init_resume_started:
  "init_resume ph r = Some (ph', cs, as) \<Longrightarrow> awaiting ph \<and> ph' \<noteq> NotStarted"
  by (induction ph r rule: init_resume.induct)
    (auto simp: finally_block_def catch_block_def split: if_splits)

lemma drive_Finished [simp]: "drive env n (Finished, calls, acts) = (Finished, calls, acts)"
  by (cases n) simp_all

lemma drive_step:
  "env_answer env ph = Some r \<Longrightarrow> init_resume ph r = Some (ph', cs, as) \<Longrightarrow>
     drive env (Suc n) (ph, calls, acts) = drive env n (ph', calls @ cs, acts @ as)"
  by simp

section \<open>Enough fuel\<close>

lemma drive_enough:
  assumes "remaining ph \<le> n" and "ph \<noteq> NotStarted"
  shows "fst (drive env n (ph, calls, acts)) = Finished \<and>
         drive env (n + k) (ph, calls, acts) = drive env n (ph, calls, acts)"
  using assms
proof (induction n arbitrary: ph calls acts)
  case 0
  then have "ph = Finished" by (cases ph) simp_all
  then show ?case by simp
next
  case (Suc n)
  show ?case
  proof (cases "ph = Finished")
    case True
    then show ?thesis by simp
  next
    case False
    with Suc.prems have "awaiting ph" by (simp add: awaiting_def)
    then obtain r ph' cs as
      where r: "env_answer env ph = Some r" and st: "init_resume ph r = Some (ph', cs, as)"
      using env_answer_accepted [of ph env] by (metis prod_cases3)
    from st Suc.prems have "remaining ph' \<le> n" and "ph' \<noteq> NotStarted"
      using init_resume_remaining [OF st] init_resume_started [OF st] by simp_all
    then have "fst (drive env n (ph', calls @ cs, acts @ as)) = Finished \<and>
        drive env (n + k) (ph', calls @ cs, acts @ as) = drive env n (ph', calls @ cs, acts @ as)"
      by (rule Suc.IH)
    with r st show ?thesis by simp
  qed
qed

section \<open>The state machine computes the whole run\<close>

lemma drive_init_start:
  "drive env 3 init_start = (Finished, fst (initializeApp env), snd (initializeApp env))"
proof (cases "getValue_result env avatarKey")
  case (Rejected e)
  then show ?thesis
    by (simp add: numeral_3_eq_3 init_start_def initializeApp_def try_block_def
        finally_block_def catch_block_def)
next
  case get: (Fulfilled aiAvatar)
  show ?thesis
  proof (cases "truthy_string aiAvatar")
    case True
    with get show ?thesis
      by (simp add: numeral_3_eq_3 init_start_def initializeApp_def try_block_def
          finally_block_def)
  next
    case False
    show ?thesis
    proof (cases "generateImage_result env aiAvatarPrompt")
      case (Rejected e)
      with get False show ?thesis
        by (simp add: numeral_3_eq_3 init_start_def initializeApp_def try_block_def
            finally_block_def catch_block_def)
    next
      case gen: (Fulfilled avatarUrl)
      with get False show ?thesis
        by (cases "setValue_result env avatarKey avatarUrl")
          (simp_all add: numeral_3_eq_3 init_start_def initializeApp_def try_block_def
            finally_block_def catch_block_def)
    qed
  qed
qed

section \<open>Sample collaborators\<close>

text \<open>
  Collaborators for the closed instances: a store that answers every read with
  \<open>v\<close> and accepts every write, and an image generator that settles with \<open>g\<close>.
\<close>

definition answering :: "string option \<Rightarrow> string settled \<Rightarrow> collaborators" where
  "answering v g =
     \<lparr> getValue_result = (\<lambda>k. Fulfilled v),
       generateImage_result = (\<lambda>p. g),
       setValue_result = (\<lambda>k u. Fulfilled ()) \<rparr>"

lemma answering_simps [simp]:
  "getValue_result (answering v g) k = Fulfilled v"
  "generateImage_result (answering v g) p = g"
  "setValue_result (answering v g) k u = Fulfilled ()"
  by (simp_all add: answering_def)

section \<open>Calls of the image generator\<close>

fun is_generateImage :: "io_call \<Rightarrow> bool" where
  "is_generateImage (GenerateImage p) = True"
| "is_generateImage _ = False"

definition avatar_missing :: "collaborators \<Rightarrow> bool" where
  "avatar_missing env =
     (case getValue_result env avatarKey of
        Fulfilled aiAvatar \<Rightarrow> \<not> truthy_string aiAvatar
      | Rejected e \<Rightarrow> False)"

lemma calls_try_block_generate:
  "filter is_generateImage (snd (try_block env)) =
     (if avatar_missing env then [GenerateImage aiAvatarPrompt] else [])"
  by (simp add: try_block_def avatar_missing_def split: settled.splits)

lemma try_block_cases:
  "try_block env = (r, calls) \<Longrightarrow>
     (case r of Inl e \<Rightarrow> fst (initializeApp env) = calls @ [ConsoleError initFailedMessage e]
              | Inr u \<Rightarrow> fst (initializeApp env) = calls)"
  by (simp add: initializeApp_def split: sum.splits)

section \<open>Properties of the initialisation\<close>

text \<open>
  \<^bold>\<open>C18\<close> (functional). With no usable avatar in the store and collaborators
  that do not fail, the run reads the avatar, logs that there is none, asks for
  one image with the fixed prompt, writes the reference it gets under the same
  key, and clears the initialising flag; nothing is logged as an error.
\<close>

theorem init_generates_missing_avatar:
  assumes "getValue_result env avatarKey = Fulfilled aiAvatar"
    and "\<not> truthy_string aiAvatar"
    and "generateImage_result env aiAvatarPrompt = Fulfilled avatarUrl"
    and "setValue_result env avatarKey avatarUrl = Fulfilled ()"
  shows "initializeApp env =
     ([GetValue avatarKey, ConsoleLog noAvatarMessage, GenerateImage aiAvatarPrompt,
       SetValue avatarKey avatarUrl],
      [SetIsAppInitializing False])"
  using assms by (simp add: initializeApp_def try_block_def)

theorem init_generates_missing_avatar_witness:
  "initializeApp (answering None (Fulfilled ''blob:avatar'')) =
     ([GetValue avatarKey, ConsoleLog noAvatarMessage, GenerateImage aiAvatarPrompt,
       SetValue avatarKey ''blob:avatar''],
      [SetIsAppInitializing False])"
  using init_generates_missing_avatar
    [of "answering None (Fulfilled ''blob:avatar'')" None "''blob:avatar''"]
  by simp

text \<open>
  \<^bold>\<open>C27\<close> (functional). With a non-empty avatar in the store the run only
  reads it: the image generator is not called, nothing is written, and the
  initialising flag is cleared.
\<close>

theorem init_keeps_cached_avatar:
  assumes "getValue_result env avatarKey = Fulfilled (Some avatarUrl)" and "avatarUrl \<noteq> []"
  shows "initializeApp env = ([GetValue avatarKey], [SetIsAppInitializing False])"
  using assms by (simp add: initializeApp_def try_block_def)

theorem init_keeps_cached_avatar_witness:
  "initializeApp (answering (Some ''blob:avatar'') (Rejected (Thrown ''offline'')))
     = ([GetValue avatarKey], [SetIsAppInitializing False])"
  using init_keeps_cached_avatar
    [of "answering (Some ''blob:avatar'') (Rejected (Thrown ''offline''))" "''blob:avatar''"]
  by simp

text \<open>
  \<^bold>\<open>C5\<close> (error). Whatever the collaborators do, the run ends by clearing the
  initialising flag and writes no other hook; and a value thrown by any of the
  three calls is caught and logged: the last call of the run is the error log
  with that value exactly when the body of \<^verbatim>\<open>try\<close> threw it.
\<close>

theorem init_always_clears_flag:
  "snd (initializeApp env) = [SetIsAppInitializing False] \<and>
   fst (initializeApp env) \<noteq> [] \<and>
   (fst (try_block env) = Inl e \<longleftrightarrow>
      last (fst (initializeApp env)) = ConsoleError initFailedMessage e)"
  by (simp add: initializeApp_def try_block_def split: settled.splits)

text \<open>
  The image generator is called at most once in a run, with
  the fixed prompt, and it is called exactly when the read of the avatar
  succeeded with a falsy value (no value or the empty string).
\<close>

theorem generateImage_at_most_once:
  "filter is_generateImage (fst (initializeApp env)) =
     (if avatar_missing env then [GenerateImage aiAvatarPrompt] else [])"
proof (cases "try_block env")
  case (Pair r calls)
  have "filter is_generateImage (fst (initializeApp env)) = filter is_generateImage calls"
    using try_block_cases [OF Pair] by (cases r) simp_all
  with Pair show ?thesis
    using calls_try_block_generate [of env] by simp
qed

text \<open>
  \<^bold>\<open>C22\<close> (refinement). The state machine of the \<^verbatim>\<open>async\<close> function, resumed
  with the promises the collaborators settle, ends after three resumptions at
  most, whatever they answer, and has then made the calls and the writes of the
  whole run; further fuel changes nothing.
\<close>

theorem init_state_machine_refines_run:
  "drive env (3 + n) init_start = (Finished, fst (initializeApp env), snd (initializeApp env))"
proof -
  have "drive env (3 + n) init_start = drive env 3 init_start"
    using drive_enough [of AwaitGetValue 3 env "[GetValue avatarKey]" "[]" n]
    by (simp add: init_start_def)
  then show ?thesis
    by (simp add: drive_init_start)
qed

text \<open>
  \<^bold>\<open>C40\<close> (functional). The test for a cached avatar is a truthiness test: an
  avatar stored as the empty string counts as missing, and the run generates
  and writes a new one.
\<close>

theorem empty_avatar_is_regenerated:
  assumes "getValue_result env avatarKey = Fulfilled (Some [])"
  shows "GenerateImage aiAvatarPrompt \<in> set (fst (initializeApp env))"
  using assms
  by (simp add: initializeApp_def try_block_def split: settled.splits)

theorem empty_avatar_is_regenerated_witness:
  "GenerateImage aiAvatarPrompt
     \<in> set (fst (initializeApp (answering (Some []) (Fulfilled ''blob:avatar''))))"
  using empty_avatar_is_regenerated [of "answering (Some []) (Fulfilled ''blob:avatar'')"]
  by simp

end
