(* ===== verification/Gateway.thy ===== *)
theory Gateway
  imports InitApp
begin

text \<open>
  The collaborators of \<^verbatim>\<open>initializeApp\<close>: the key-value store behind
  \<^verbatim>\<open>getValue\<close> and \<^verbatim>\<open>setValue\<close> (\<^verbatim>\<open>services/dbService\<close>) and the image
  generator behind \<^verbatim>\<open>generateImage\<close> (\<^verbatim>\<open>services/geminiService\<close>). Their
  code is not part of the sources (\<^verbatim>\<open>src/App.tsx\<close> imports them in lines 14
  and 16); they are modelled from their contracts: \<^verbatim>\<open>get(key)\<close> returns the
  value stored under the key or nothing, \<^verbatim>\<open>set(key, value)\<close> stores the value
  and acknowledges, \<^verbatim>\<open>generate(prompt)\<close> returns an image reference, and each
  of them may fail.

  A call and the settlement of its promise are one exchange. The calls are the
  \<open>io_call\<close>s of theory \<open>InitApp\<close> and the settlements its \<open>resumption\<close>s, so
  the log of the controller and the events that resume \<^verbatim>\<open>initializeApp\<close> are
  what the collaborators see.

  \<^item> \<open>gateway_step\<close>: what the store answers to a call and what it holds
    afterwards; \<open>None\<close> when the store cannot answer that way. A rejected
    call leaves the store as it was;
  \<^item> \<open>serve\<close>: the same for the store and the generator together; the
    generator may return any reference;
  \<^item> \<open>serve_run\<close>: a sequence of exchanges;
  \<^item> \<open>awaited\<close>: the call whose promise a phase of \<^verbatim>\<open>initializeApp\<close> waits
    for.

  The lemmas give the content of the store after any sequence of exchanges
  (\<open>serve_run_lookup\<close>: the last acknowledged write of a key, or what was
  there before) and tie the phases to the calls: a resumption issues exactly
  the call its next phase waits for (\<open>init_resume_issues\<close>).
\<close>

section \<open>The key-value store\<close>

type_synonym kv_store = "string \<rightharpoonup> string"

type_synonym exchange = "io_call \<times> resumption"

fun gateway_step :: "kv_store \<Rightarrow> io_call \<Rightarrow> resumption \<Rightarrow> kv_store option" where
  "gateway_step db (GetValue k) (GetValueSettled (Fulfilled v)) =
     (if v = db k then Some db else None)"
| "gateway_step db (GetValue k) (GetValueSettled (Rejected e)) = Some db"
| "gateway_step db (SetValue k v) (SetValueSettled (Fulfilled u)) = Some (db(k \<mapsto> v))"
| "gateway_step db (SetValue k v) (SetValueSettled (Rejected e)) = Some db"
| "gateway_step db _ _ = None"

section \<open>The collaborators together\<close>

fun serve :: "kv_store \<Rightarrow> io_call \<Rightarrow> resumption \<Rightarrow> kv_store option" where
  "serve db (GenerateImage p) (GenerateImageSettled x) = Some db"
| "serve db (GenerateImage p) _ = None"
| "serve db c r = gateway_step db c r"

fun serve_run :: "kv_store \<Rightarrow> exchange list \<Rightarrow> kv_store option" where
  "serve_run db [] = Some db"
| "serve_run db (x # xs) =
     (case serve db (fst x) (snd x) of None \<Rightarrow> None | Some db' \<Rightarrow> serve_run db' xs)"

text \<open>The calls that return a promise.\<close>

fun is_async :: "io_call \<Rightarrow> bool" where
  "is_async (ConsoleLog m) = False"
| "is_async (ConsoleError m e) = False"
| "is_async _ = True"

text \<open>The values that acknowledged writes of a sequence store under a key, in order.\<close>

fun writes :: "string \<Rightarrow> exchange list \<Rightarrow> string list" where
  "writes k [] = []"
| "writes k ((SetValue k' v, SetValueSettled (Fulfilled u)) # xs) =
     (if k' = k then v # writes k xs else writes k xs)"
| "writes k (x # xs) = writes k xs"

section \<open>What the store holds\<close>

lemma serve_run_append:
  "serve_run db (xs @ ys) =
     (case serve_run db xs of None \<Rightarrow> None | Some db' \<Rightarrow> serve_run db' ys)"
  by (induction xs arbitrary: db) (simp_all split: option.splits)

lemma writes_append [simp]: "writes k (xs @ ys) = writes k xs @ writes k ys"
  by (induction k xs rule: writes.induct) simp_all

text \<open>The exchanges that can happen, and what each leaves in the store.\<close>

lemma serve_cases:
  assumes "serve db c r = Some db'"
  obtains (Read) k where "c = GetValue k" and "r = GetValueSettled (Fulfilled (db k))"
      and "db' = db"
    | (Read_failed) k e where "c = GetValue k" and "r = GetValueSettled (Rejected e)"
      and "db' = db"
    | (Written) k v where "c = SetValue k v" and "r = SetValueSettled (Fulfilled ())"
      and "db' = db(k \<mapsto> v)"
    | (Write_failed) k v e where "c = SetValue k v" and "r = SetValueSettled (Rejected e)"
      and "db' = db"
    | (Generated) p x where "c = GenerateImage p" and "r = GenerateImageSettled x"
      and "db' = db"
  by (rule serve.elims [OF assms]) (auto elim!: gateway_step.elims [OF sym] split: if_splits)

lemma serve_is_async: "serve db c r = Some db' \<Longrightarrow> is_async c"
  by (erule serve_cases) simp_all

text \<open>One exchange changes the store at the key of an acknowledged write only.\<close>

lemma serve_lookup:
  "serve db c r = Some db' \<Longrightarrow>
     db' k = (if writes k [(c, r)] = [] then db k else Some (last (writes k [(c, r)])))"
  by (erule serve_cases) simp_all

lemma serve_run_lookup:
  "serve_run db xs = Some db' \<Longrightarrow>
     db' k = (if writes k xs = [] then db k else Some (last (writes k xs)))"
proof (induction xs arbitrary: db)
  case Nil
  then show ?case by simp
next
  case (Cons x xs)
  then obtain t where t: "serve db (fst x) (snd x) = Some t" and r: "serve_run t xs = Some db'"
    by (auto split: option.splits)
  have "writes k (x # xs) = writes k [(fst x, snd x)] @ writes k xs"
    using writes_append [of k "[x]" xs] by simp
  with serve_lookup [OF t, of k] Cons.IH [OF r] show ?case
    by simp
qed

text \<open>
  A read that the store answers returns what the store holds: the last
  acknowledged write of the key, or what was there before.
\<close>

lemma serve_read:
  "serve db (GetValue k) (GetValueSettled (Fulfilled v)) = Some db' \<longleftrightarrow> v = db k \<and> db' = db"
  by auto

lemma serve_run_read:
  assumes "serve_run db (xs @ [(GetValue k, GetValueSettled (Fulfilled x))]) = Some db'"
  shows "x = (if writes k xs = [] then db k else Some (last (writes k xs)))" and "db' k = x"
proof -
  from assms obtain t where t: "serve_run db xs = Some t"
    and r: "serve t (GetValue k) (GetValueSettled (Fulfilled x)) = Some db'"
    by (auto simp: serve_run_append split: option.splits)
  from r have "x = t k" and "db' = t"
    by (simp_all split: if_splits)
  with serve_run_lookup [OF t, of k]
  show "x = (if writes k xs = [] then db k else Some (last (writes k xs)))" and "db' k = x"
    by simp_all
qed

section \<open>The call a phase waits for\<close>

fun awaited :: "init_phase \<Rightarrow> io_call list" where
  "awaited AwaitGetValue = [GetValue avatarKey]"
| "awaited AwaitGenerateImage = [GenerateImage aiAvatarPrompt]"
| "awaited (AwaitSetValue avatarUrl) = [SetValue avatarKey avatarUrl]"
| "awaited _ = []"

lemma init_start_issues: "filter is_async (fst (snd init_start)) = awaited (fst init_start)"
  by (simp add: init_start_def)

lemma init_resume_issues:
  "init_resume ph r = Some (ph', calls, as) \<Longrightarrow> filter is_async calls = awaited ph'"
  by (induction ph r rule: init_resume.induct)
    (auto simp: finally_block_def catch_block_def split: if_splits)

lemma init_resume_awaited:
  "init_resume ph r = Some st \<Longrightarrow> \<exists>c. awaited ph = [c]"
  by (induction ph r rule: init_resume.induct) simp_all

end
