(* ===== verification/Controller.thy ===== *)
theory Controller
  imports Effects Gateway
begin

text \<open>
  The controller as one event-driven machine: the component \<^verbatim>\<open>AppContent\<close> of
  \<^verbatim>\<open>src/App.tsx\<close> together with what drives it. JavaScript runs one event
  at a time to completion, so a run is a sequence of events; after each event
  React renders until the component has settled (theory \<open>Effects\<close>).

  \<^item> \<open>system\<close>: the context values the providers currently publish, the
    component, the \<^verbatim>\<open>await\<close> at which \<^verbatim>\<open>initializeApp\<close> is suspended, the
    content of the key-value store, and the log of the calls made to the store,
    the image generator and the console;
  \<^item> \<open>event\<close>: the providers publish new context values (\<open>Provide\<close>), the
    rendered page component calls a callback it was given (\<open>Call\<close>), or a
    promise \<^verbatim>\<open>initializeApp\<close> waits for settles (\<open>Settle\<close>);
  \<^item> \<open>boot\<close>: the state after the first render and its effects;
  \<^item> \<open>step\<close>: one event, \<open>None\<close> when it cannot happen in the state: a
    callback that the rendered element does not offer, a promise nobody waits
    for, or a read of the store that returns something else than its content;
  \<^item> \<open>run\<close>: a sequence of events.

  The providers, the page components and the collaborators are not part of the
  sources; they are left free: any context values, any accepted callback with
  any argument and any settlement of a pending promise can come next. The one
  thing assumed of the store is that a successful read of the avatar returns
  what is stored and that only a successful \<^verbatim>\<open>setValue\<close> of
  \<^verbatim>\<open>initializeApp\<close> changes it (\<open>gateway_allows\<close>, \<open>store_after\<close>); this is
  the contract of theory \<open>Gateway\<close> for the call a phase waits for
  (\<open>serve_awaited\<close>, \<open>step_Settle_iff_served\<close>).

  The lemmas: what each kind of event does to a component at rest
  (\<open>step_Provide\<close>, \<open>step_Call\<close>, \<open>step_Settle\<close>); the invariants of the
  reachable states (\<open>sys_inv\<close>: at rest, a page to go back to, the flag and
  the phase agree; \<open>sys_idle\<close>: nothing moves before the initialisation has
  finished); and that at most three events of a run settle a promise. \<open>ready\<close>,
  \<open>step_boot_failed\<close> and \<open>step_ready_OnNavigate\<close> compute sample runs. What
  the machine does with the store and the log is in theory \<open>Startup\<close>.
\<close>

section \<open>States and events\<close>

record system =
  ctx :: contexts
  comp :: component
  phase :: init_phase
  store :: "string \<rightharpoonup> string"
  io :: "io_call list"

datatype event =
    Provide contexts
  | Call ui_event
  | Settle resumption

definition boot :: "contexts \<Rightarrow> (string \<rightharpoonup> string) \<Rightarrow> system" where
  "boot c db =
     (case init_start of
        (ph, calls, as) \<Rightarrow>
          \<lparr> ctx = c,
            comp = (mount_component c)\<lparr>hooks := run_actions (hooks (mount_component c)) as\<rparr>,
            phase = ph,
            store = db,
            io = calls \<rparr>)"

section \<open>Steps\<close>

definition render :: "system \<Rightarrow> system" where
  "render sys = sys\<lparr>comp := settle (ctx sys) (comp sys)\<rparr>"

definition write_hooks :: "action list \<Rightarrow> system \<Rightarrow> system" where
  "write_hooks as sys = sys\<lparr>comp := (comp sys)\<lparr>hooks := run_actions (hooks (comp sys)) as\<rparr>\<rparr>"

fun gateway_allows :: "(string \<rightharpoonup> string) \<Rightarrow> resumption \<Rightarrow> bool" where
  "gateway_allows db (GetValueSettled (Fulfilled v)) = (v = db avatarKey)"
| "gateway_allows db _ = True"

fun store_after :: "(string \<rightharpoonup> string) \<Rightarrow> init_phase \<Rightarrow> resumption \<Rightarrow> (string \<rightharpoonup> string)" where
  "store_after db (AwaitSetValue avatarUrl) (SetValueSettled (Fulfilled u)) =
     db(avatarKey \<mapsto> avatarUrl)"
| "store_after db _ _ = db"

text \<open>
  The two are the collaborators of theory \<open>Gateway\<close> serving the call the
  phase waits for:
\<close>

lemma serve_awaited:
  "init_resume ph r = Some st \<Longrightarrow> awaited ph = [c] \<Longrightarrow>
     serve db c r = (if gateway_allows db r then Some (store_after db ph r) else None)"
  by (induction ph r rule: init_resume.induct) auto

text \<open>
  And a settlement can resume \<^verbatim>\<open>initializeApp\<close> exactly when it is an answer of
  the collaborators to the call the phase waits for.
\<close>

lemma resume_iff_served:
  "(\<exists>st. init_resume ph r = Some st) \<and> gateway_allows db r \<longleftrightarrow>
     (\<exists>c db'. awaited ph = [c] \<and> serve db c r = Some db')"
  by (induction ph r rule: init_resume.induct)
    (auto simp: finally_block_def catch_block_def)

fun step :: "system \<Rightarrow> event \<Rightarrow> system option" where
  "step sys (Provide c) = Some (render (sys\<lparr>ctx := c\<rparr>))"
| "step sys (Call e) =
     (case dispatch (App (ctx sys) (hooks (comp sys))) e of
        None \<Rightarrow> None
      | Some as \<Rightarrow> Some (render (write_hooks as sys)))"
| "step sys (Settle r) =
     (if \<not> gateway_allows (store sys) r then None
      else case init_resume (phase sys) r of
        None \<Rightarrow> None
      | Some (ph, calls, as) \<Rightarrow>
          Some (render (write_hooks as
            (sys\<lparr> phase := ph,
                  io := io sys @ calls,
                  store := store_after (store sys) (phase sys) r \<rparr>))))"

text \<open>
  The state an event leaves before React renders again: \<open>step\<close> is this
  followed by \<open>render\<close>.
\<close>

fun before_render :: "system \<Rightarrow> event \<Rightarrow> system option" where
  "before_render sys (Provide c) = Some (sys\<lparr>ctx := c\<rparr>)"
| "before_render sys (Call e) =
     map_option (\<lambda>as. write_hooks as sys) (dispatch (App (ctx sys) (hooks (comp sys))) e)"
| "before_render sys (Settle r) =
     (if \<not> gateway_allows (store sys) r then None
      else map_option
        (\<lambda>(ph, calls, as). write_hooks as
            (sys\<lparr> phase := ph, io := io sys @ calls,
                  store := store_after (store sys) (phase sys) r \<rparr>))
        (init_resume (phase sys) r))"

fun run :: "system \<Rightarrow> event list \<Rightarrow> system option" where
  "run sys [] = Some sys"
| "run sys (e # es) = (case step sys e of None \<Rightarrow> None | Some sys' \<Rightarrow> run sys' es)"

definition initial :: "system \<Rightarrow> bool" where
  "initial sys \<longleftrightarrow> (\<exists>c db. sys = boot c db)"

definition steps_to :: "system \<Rightarrow> system \<Rightarrow> bool" where
  "steps_to sys sys' \<longleftrightarrow> (\<exists>e. step sys e = Some sys')"

abbreviation reachable_sys :: "system \<Rightarrow> bool" where
  "reachable_sys \<equiv> reachable initial steps_to"

section \<open>Projections\<close>

abbreviation page :: "system \<Rightarrow> Page" where
  "page sys \<equiv> currentPage (hooks (comp sys))"

abbreviation signedIn :: "system \<Rightarrow> bool" where
  "signedIn sys \<equiv> truthy (currentUser (ctx sys))"

definition view :: "system \<Rightarrow> element" where
  "view sys = App (ctx sys) (hooks (comp sys))"

lemma render_simps [simp]:
  "ctx (render sys) = ctx sys"
  "phase (render sys) = phase sys"
  "store (render sys) = store sys"
  "io (render sys) = io sys"
  "comp (render sys) = settle (ctx sys) (comp sys)"
  by (simp_all add: render_def)

lemma write_hooks_simps [simp]:
  "ctx (write_hooks as sys) = ctx sys"
  "phase (write_hooks as sys) = phase sys"
  "store (write_hooks as sys) = store sys"
  "io (write_hooks as sys) = io sys"
  "hooks (comp (write_hooks as sys)) = run_actions (hooks (comp sys)) as"
  "watcherDeps (comp (write_hooks as sys)) = watcherDeps (comp sys)"
  by (simp_all add: write_hooks_def)

lemma boot_simps [simp]:
  "ctx (boot c db) = c"
  "comp (boot c db) = mount_component c"
  "phase (boot c db) = AwaitGetValue"
  "store (boot c db) = db"
  "io (boot c db) = [GetValue avatarKey]"
  by (simp_all add: boot_def init_start_def)

lemma step_before_render: "step sys e = map_option render (before_render sys e)"
  by (cases e) (auto split: option.splits)

section \<open>Runs\<close>

lemma run_append:
  "run sys (es @ fs) = (case run sys es of None \<Rightarrow> None | Some sys' \<Rightarrow> run sys' fs)"
  by (induction es arbitrary: sys) (simp_all split: option.splits)

lemma run_snoc:
  "run sys (es @ [e]) = (case run sys es of None \<Rightarrow> None | Some sys' \<Rightarrow> step sys' e)"
  by (simp add: run_append split: option.splits)

lemma reachable_step: "reachable_sys sys \<Longrightarrow> step sys e = Some sys' \<Longrightarrow> reachable_sys sys'"
  by (rule reachable.reachable_step) (auto simp: steps_to_def)

lemma reachable_boot [simp]: "reachable_sys (boot c db)"
  by (rule reachable.reachable_init) (auto simp: initial_def)

lemma reachable_run:
  "reachable_sys sys \<Longrightarrow> run sys es = Some sys' \<Longrightarrow> reachable_sys sys'"
proof (induction es arbitrary: sys)
  case Nil
  then show ?case by simp
next
  case (Cons e es)
  then obtain t where t: "step sys e = Some t" and "run t es = Some sys'"
    by (auto split: option.splits)
  with Cons.prems(1) have "reachable_sys t"
    by (blast intro: reachable_step)
  then show ?case
    using \<open>run t es = Some sys'\<close> by (rule Cons.IH)
qed

text \<open>Every reachable state is the end of a run from a boot state.\<close>

lemma reachable_is_run:
  "reachable_sys sys \<Longrightarrow> \<exists>c db es. run (boot c db) es = Some sys"
proof (induction rule: reachable.induct)
  case (reachable_init sys)
  then obtain c db where "sys = boot c db"
    by (auto simp: initial_def)
  then have "run (boot c db) [] = Some sys" by simp
  then show ?case by blast
next
  case (reachable_step sys sys')
  then obtain c db es e where "run (boot c db) es = Some sys" and "step sys e = Some sys'"
    by (auto simp: steps_to_def)
  then have "run (boot c db) (es @ [e]) = Some sys'"
    by (simp add: run_snoc)
  then show ?case by blast
qed

section \<open>What a step does to the hooks\<close>

text \<open>
  In a component at rest, writes that leave \<^verbatim>\<open>prevUserRef\<close> alone need no second
  render: the effect runs at most to find that there is no edge.
\<close>

lemma settle_after_write:
  assumes "at_rest c0 c" and "prevUserRef h = prevUserRef (hooks c)"
  shows "settle c0 (c\<lparr>hooks := h\<rparr>) =
           \<lparr> hooks = h, watcherDeps = Some (currentUser c0, currentPage h) \<rparr>"
proof -
  from assms have "ref_synced (c\<lparr>hooks := h\<rparr>)" and "prevUserRef h = currentUser c0"
    by (simp_all add: at_rest_def ref_synced_def)
  then show ?thesis
    by (simp add: settle_synced_eq)
qed

lemma dispatch_Some:
  assumes "dispatch (App c0 s) e = Some as"
  shows "\<not> loading c0 s \<and>
    (\<exists>p. as = navigate (currentPage s) p \<and> (currentPage s = auth \<longrightarrow> p = previousPage s))"
  using assms
  by (cases e)
    (auto simp: App_def dispatch_OnNavigate dispatch_OnNavigateBack split: if_splits)

lemma step_Provide:
  assumes "at_rest (ctx sys) (comp sys)"
  shows "step sys (Provide c) =
    Some (sys\<lparr> ctx := c,
      comp := \<lparr> hooks = watch (hooks (comp sys)) (currentUser c),
                watcherDeps = Some (currentUser c,
                  currentPage (watch (hooks (comp sys)) (currentUser c))) \<rparr> \<rparr>)"
  using assms
  by (simp add: render_def settle_synced_eq at_rest_imp_ref_synced)

lemma render_write_hooks:
  assumes "at_rest (ctx sys) (comp sys)"
    and "prevUserRef (run_actions (hooks (comp sys)) as) = prevUserRef (hooks (comp sys))"
  shows "render (write_hooks as sys) =
    sys\<lparr> comp := \<lparr> hooks = run_actions (hooks (comp sys)) as,
      watcherDeps = Some (currentUser (ctx sys),
        currentPage (run_actions (hooks (comp sys)) as)) \<rparr> \<rparr>"
  using assms by (simp add: render_def write_hooks_def settle_after_write)

lemma step_Call:
  assumes "at_rest (ctx sys) (comp sys)"
    and "dispatch (App (ctx sys) (hooks (comp sys))) e = Some as"
  shows "step sys (Call e) =
    Some (sys\<lparr> comp := \<lparr> hooks = run_actions (hooks (comp sys)) as,
      watcherDeps = Some (currentUser (ctx sys),
        currentPage (run_actions (hooks (comp sys)) as)) \<rparr> \<rparr>)"
proof -
  obtain p where "as = navigate (page sys) p"
    using dispatch_Some [OF assms(2)] by blast
  then have "prevUserRef (run_actions (hooks (comp sys)) as) = prevUserRef (hooks (comp sys))"
    by simp
  with assms show ?thesis
    by (simp add: render_write_hooks)
qed

lemma step_Settle:
  assumes "at_rest (ctx sys) (comp sys)"
    and "gateway_allows (store sys) r"
    and "init_resume (phase sys) r = Some (ph, calls, as)"
  shows "step sys (Settle r) =
    Some (sys\<lparr> phase := ph, io := io sys @ calls,
      store := store_after (store sys) (phase sys) r,
      comp := \<lparr> hooks = (hooks (comp sys))\<lparr>isAppInitializing :=
                  isAppInitializing (hooks (comp sys)) \<and> ph \<noteq> Finished\<rparr>,
                watcherDeps = Some (currentUser (ctx sys), page sys) \<rparr> \<rparr>)"
proof -
  have as: "as = (if ph = Finished then [SetIsAppInitializing False] else [])"
    using assms(3) by (rule init_resume_writes)
  then have h: "run_actions (hooks (comp sys)) as =
      (hooks (comp sys))\<lparr>isAppInitializing := isAppInitializing (hooks (comp sys)) \<and> ph \<noteq> Finished\<rparr>"
    by simp
  have "settle (ctx sys) ((comp sys)\<lparr>hooks := run_actions (hooks (comp sys)) as\<rparr>) =
      \<lparr> hooks = run_actions (hooks (comp sys)) as,
        watcherDeps = Some (currentUser (ctx sys),
          currentPage (run_actions (hooks (comp sys)) as)) \<rparr>"
    using assms(1) by (intro settle_after_write) (simp_all add: h)
  with assms(2,3) show ?thesis
    by (simp add: render_def write_hooks_def h)
qed

section \<open>Invariants\<close>

definition sys_inv :: "system \<Rightarrow> bool" where
  "sys_inv sys \<longleftrightarrow>
     at_rest (ctx sys) (comp sys) \<and>
     back_target_ok (hooks (comp sys)) \<and>
     isAppInitializing (hooks (comp sys)) = (phase sys \<noteq> Finished) \<and>
     phase sys \<noteq> NotStarted \<and>
     scrolls_ok (hooks (comp sys))"

declare sys_inv_def [inv_defs]

lemma sys_inv_boot [simp]: "sys_inv (boot c db)"
  by (simp add: sys_inv_def)

lemma sys_inv_Provide:
  assumes "sys_inv sys" and "step sys (Provide c) = Some sys'"
  shows "sys_inv sys'"
proof -
  from assms(1) have rest: "at_rest (ctx sys) (comp sys)"
    by (simp add: sys_inv_def)
  from assms(2) show ?thesis
    unfolding step_Provide [OF rest]
    using assms(1) by (auto simp: sys_inv_def at_rest_def)
qed

lemma sys_inv_Call:
  assumes "sys_inv sys" and "step sys (Call e) = Some sys'"
  shows "sys_inv sys'"
proof -
  from assms(1) have rest: "at_rest (ctx sys) (comp sys)"
    by (simp add: sys_inv_def)
  from assms(2) obtain as where as: "dispatch (App (ctx sys) (hooks (comp sys))) e = Some as"
    by (auto split: option.splits)
  then obtain p where p: "as = navigate (page sys) p"
    using dispatch_Some by blast
  have "back_target_ok (run_actions (hooks (comp sys)) as)"
    using as assms(1) by (simp add: App_def back_target_ok_dispatch sys_inv_def)
  with assms show ?thesis
    unfolding step_Call [OF rest as]
    by (auto simp: sys_inv_def at_rest_def p)
qed

lemma sys_inv_Settle:
  assumes "sys_inv sys" and "step sys (Settle r) = Some sys'"
  shows "sys_inv sys'"
proof -
  from assms(1) have rest: "at_rest (ctx sys) (comp sys)"
    by (simp add: sys_inv_def)
  from assms(2) obtain ph calls as
    where ok: "gateway_allows (store sys) r"
      and res: "init_resume (phase sys) r = Some (ph, calls, as)"
    by (auto split: if_splits option.splits)
  from res have "ph \<noteq> NotStarted" and "phase sys \<noteq> Finished"
    using init_resume_started [OF res] by (auto simp: awaiting_def)
  with assms show ?thesis
    unfolding step_Settle [OF rest ok res]
    by (auto simp: sys_inv_def at_rest_def)
qed

lemma sys_inv_step: "sys_inv sys \<Longrightarrow> step sys e = Some sys' \<Longrightarrow> sys_inv sys'"
  by (cases e) (auto intro: sys_inv_Provide sys_inv_Call sys_inv_Settle)

lemma reachable_sys_inv: "reachable_sys sys \<Longrightarrow> sys_inv sys"
proof (erule reachable_invariant)
  show "sys_inv s" if "initial s" for s
    using that by (auto simp: initial_def)
  show "sys_inv t" if "sys_inv s" and "steps_to s t" for s t
    using that by (auto simp: steps_to_def intro: sys_inv_step)
qed

lemma sys_inv_run: "sys_inv sys \<Longrightarrow> run sys es = Some sys' \<Longrightarrow> sys_inv sys'"
  by (induction es arbitrary: sys) (auto split: option.splits intro: sys_inv_step)

section \<open>Events that settle a promise\<close>

fun is_Settle :: "event \<Rightarrow> bool" where
  "is_Settle (Settle r) = True"
| "is_Settle _ = False"

lemma phase_step_other:
  "step sys e = Some sys' \<Longrightarrow> \<not> is_Settle e \<Longrightarrow>
     phase sys' = phase sys \<and> store sys' = store sys \<and> io sys' = io sys"
  by (cases e) (auto split: option.splits)

lemma phase_step_Settle:
  "step sys (Settle r) = Some sys' \<Longrightarrow> remaining (phase sys') < remaining (phase sys)"
  by (auto split: option.splits if_splits dest: init_resume_remaining)

lemma step_SettleE:
  assumes "step sys (Settle r) = Some sys'"
  obtains ph calls as where "gateway_allows (store sys) r"
    and "init_resume (phase sys) r = Some (ph, calls, as)"
    and "phase sys' = ph" and "io sys' = io sys @ calls"
    and "store sys' = store_after (store sys) (phase sys) r"
    and "ctx sys' = ctx sys"
  using assms by (auto split: if_splits option.splits)

text \<open>
  The controller and the collaborators agree on the settlements: a promise can
  settle in a state exactly when the collaborators can answer the awaited call
  in that way, and the store afterwards is theirs.
\<close>

lemma step_Settle_iff_served:
  "(\<exists>sys'. step sys (Settle r) = Some sys') \<longleftrightarrow>
     (\<exists>c db'. awaited (phase sys) = [c] \<and> serve (store sys) c r = Some db')"
  using resume_iff_served [of "phase sys" r "store sys"]
  by (auto split: option.splits)

lemma step_Settle_served:
  assumes "step sys (Settle r) = Some sys'"
  obtains c where "awaited (phase sys) = [c]" and "serve (store sys) c r = Some (store sys')"
proof -
  from assms obtain ph calls as where "gateway_allows (store sys) r"
    and "init_resume (phase sys) r = Some (ph, calls, as)"
    and "store sys' = store_after (store sys) (phase sys) r"
    by (rule step_SettleE)
  moreover from this obtain c where "awaited (phase sys) = [c]"
    using init_resume_awaited by blast
  ultimately show ?thesis
    using that by (simp add: serve_awaited)
qed

section \<open>Before the initialisation has finished\<close>

text \<open>
  While \<^verbatim>\<open>initializeApp\<close> is pending the component has not left its mount
  state: no callback is offered and the identity effect has nothing to redirect
  from the home page.
\<close>

definition sys_idle :: "system \<Rightarrow> bool" where
  "sys_idle sys \<longleftrightarrow>
     phase sys = Finished \<or>
     (page sys = home \<and> previousPage (hooks (comp sys)) = home \<and>
      scrollCalls (hooks (comp sys)) = [])"

declare sys_idle_def [inv_defs]

lemma sys_idle_boot [simp]: "sys_idle (boot c db)"
  by (simp add: sys_idle_def)

lemma sys_idle_step:
  assumes "sys_inv sys" and "sys_idle sys" and "step sys e = Some sys'"
  shows "sys_idle sys'"
proof (cases e)
  case (Provide c)
  from assms(1) have rest: "at_rest (ctx sys) (comp sys)"
    by (simp add: sys_inv_def)
  from assms(3) show ?thesis
    unfolding Provide step_Provide [OF rest]
    using assms(2) by (auto simp: sys_idle_def)
next
  case (Call ev)
  with assms(3) obtain as where "dispatch (App (ctx sys) (hooks (comp sys))) ev = Some as"
    by (auto split: option.splits)
  then have "\<not> isAppInitializing (hooks (comp sys))"
    using dispatch_Some by (auto simp: loading_def)
  with assms(1) have "phase sys = Finished"
    by (simp add: sys_inv_def)
  with assms(3) Call show ?thesis
    using phase_step_other [of sys e sys'] by (simp add: sys_idle_def)
next
  case (Settle r)
  from assms(1) have rest: "at_rest (ctx sys) (comp sys)"
    by (simp add: sys_inv_def)
  from assms(3) Settle obtain ph calls as
    where ok: "gateway_allows (store sys) r"
      and res: "init_resume (phase sys) r = Some (ph, calls, as)"
    by (auto split: if_splits option.splits)
  from assms(3) show ?thesis
    unfolding Settle step_Settle [OF rest ok res]
    using assms(2) init_resume_Finished [of r] res by (auto simp: sys_idle_def)
qed

lemma reachable_sys_idle: "reachable_sys sys \<Longrightarrow> sys_inv sys \<and> sys_idle sys"
proof (erule reachable_invariant)
  show "sys_inv s \<and> sys_idle s" if "initial s" for s
    using that by (auto simp: initial_def)
  show "sys_inv t \<and> sys_idle t" if "sys_inv s \<and> sys_idle s" and "steps_to s t" for s t
    using that by (auto simp: steps_to_def intro: sys_inv_step sys_idle_step)
qed

section \<open>How many promises settle\<close>

lemma settles_run:
  "run sys es = Some sys' \<Longrightarrow>
     length (filter is_Settle es) + remaining (phase sys') \<le> remaining (phase sys)"
proof (induction es arbitrary: sys)
  case Nil
  then show ?case by simp
next
  case (Cons e es)
  then obtain t where t: "step sys e = Some t" and r: "run t es = Some sys'"
    by (auto split: option.splits)
  have "(if is_Settle e then 1 else 0 :: nat) + remaining (phase t) \<le> remaining (phase sys)"
  proof (cases "is_Settle e")
    case True
    then obtain r where "e = Settle r" by (cases e) simp_all
    with t show ?thesis
      using phase_step_Settle [of sys r t] by simp
  next
    case False
    with t show ?thesis
      using phase_step_other [of sys e t] by simp
  qed
  with Cons.IH [OF r] show ?case by (simp split: if_splits)
qed

section \<open>Sample runs\<close>

text \<open>
  The shortest way out of the loading indicator: the read of the avatar fails.
  \<open>ready c p\<close> is the component at rest on page \<open>p\<close> after it.
\<close>

definition ready :: "contexts \<Rightarrow> Page \<Rightarrow> Page \<Rightarrow> (int \<times> int) list \<Rightarrow> component" where
  "ready c p q scr =
     \<lparr> hooks = \<lparr> currentPage = p, previousPage = q, isAppInitializing = False,
                 prevUserRef = currentUser c, scrollCalls = scr \<rparr>,
       watcherDeps = Some (currentUser c, p) \<rparr>"

lemma at_rest_ready [simp]: "at_rest c (ready c p q scr)"
  by (simp add: at_rest_def ready_def)

lemma hooks_ready [simp]:
  "currentPage (hooks (ready c p q scr)) = p"
  "previousPage (hooks (ready c p q scr)) = q"
  "isAppInitializing (hooks (ready c p q scr)) = False"
  "prevUserRef (hooks (ready c p q scr)) = currentUser c"
  "scrollCalls (hooks (ready c p q scr)) = scr"
  by (simp_all add: ready_def)

lemma step_boot_failed:
  "step (boot c db) (Settle (GetValueSettled (Rejected e))) =
     Some ((boot c db)\<lparr> phase := Finished,
        io := [GetValue avatarKey, ConsoleError initFailedMessage e],
        comp := ready c home home [] \<rparr>)"
  by (subst step_Settle [where ph = Finished and calls = "[ConsoleError initFailedMessage e]"
        and as = "[SetIsAppInitializing False]"])
    (simp_all add: catch_block_def finally_block_def ready_def mount_def)

lemma step_ready_OnNavigate:
  assumes "comp sys = ready (ctx sys) p q scr" and "p \<noteq> auth"
    and "\<not> isAuthLoading (ctx sys)" and "\<not> isTranslationsLoading (ctx sys)"
  shows "step sys (Call (OnNavigate p')) =
     Some (sys\<lparr> comp := ready (ctx sys) p' (if p' = auth then p else q) (scr @ [(0, 0)]) \<rparr>)"
proof -
  have "dispatch (App (ctx sys) (hooks (comp sys))) (OnNavigate p') = Some (navigate p p')"
    using assms by (simp add: App_def handler_renderPage loading_def)
  moreover have "at_rest (ctx sys) (comp sys)"
    using assms(1) by simp
  ultimately show ?thesis
    using assms(1) by (simp add: step_Call ready_def run_navigate del: step.simps)
qed

section \<open>Properties of the controller\<close>

text \<open>
  \<^bold>\<open>C2\<close> (invariant). In every state the controller can reach, whatever the
  providers, the page components and the collaborators do: the remembered user
  is the current user; the page to go back to is not the auth page; the
  initialising flag is set exactly while \<^verbatim>\<open>initializeApp\<close> has not finished;
  the window has only ever been scrolled to the top; and a further render would
  change nothing.
\<close>

theorem reachable_invariants:
  assumes "reachable_sys sys"
  shows "prevUserRef (hooks (comp sys)) = currentUser (ctx sys) \<and>
         previousPage (hooks (comp sys)) \<noteq> auth \<and>
         isAppInitializing (hooks (comp sys)) = (phase sys \<noteq> Finished) \<and>
         set (scrollCalls (hooks (comp sys))) \<subseteq> {(0, 0)} \<and>
         render sys = sys"
proof -
  from assms have inv: "sys_inv sys"
    by (rule reachable_sys_inv)
  then have "settle (ctx sys) (comp sys) = comp sys"
    by (simp add: sys_inv_def)
  then have "render sys = sys"
    by (simp add: render_def)
  with inv show ?thesis
    by (simp add: sys_inv_def at_rest_def back_target_ok_def scrolls_ok_def)
qed

theorem reachable_invariants_witness:
  "prevUserRef (hooks (comp (boot signed_in Map.empty))) = currentUser (ctx (boot signed_in Map.empty)) \<and>
   previousPage (hooks (comp (boot signed_in Map.empty))) \<noteq> auth \<and>
   isAppInitializing (hooks (comp (boot signed_in Map.empty)))
     = (phase (boot signed_in Map.empty) \<noteq> Finished) \<and>
   render (boot signed_in Map.empty) = boot signed_in Map.empty"
  using reachable_invariants [OF reachable_boot [of signed_in Map.empty]]
  by simp

text \<open>
  \<^bold>\<open>C23\<close> (safety). When the providers publish that the user is gone, in a
  reachable state in which a user was signed in, the page shown after the
  renders have settled is not a protected page: from \<open>profile\<close> and \<open>tracker\<close>
  the controller has gone home, and from any other page it has not moved.
\<close>

theorem logout_never_leaves_protected_page:
  assumes "reachable_sys sys" and "currentUser (ctx sys) = Some u"
    and "currentUser c = None" and "step sys (Provide c) = Some sys'"
  shows "page sys' \<notin> set protectedPages \<and>
         page sys' = (if page sys \<in> set protectedPages then home else page sys)"
proof -
  from assms(1) have inv: "sys_inv sys"
    by (rule reachable_sys_inv)
  then have rest: "at_rest (ctx sys) (comp sys)"
    by (simp add: sys_inv_def)
  from assms(4) have "hooks (comp sys') = watch (hooks (comp sys)) None"
    unfolding step_Provide [OF rest] using assms(3) by auto
  moreover from rest assms(2) have "prevUserRef (hooks (comp sys)) = Some u"
    by (simp add: at_rest_def)
  ultimately show ?thesis
    by (auto simp: redirects_def)
qed

theorem logout_never_leaves_protected_page_witness:
  "page (the (run (boot signed_in Map.empty)
      [Settle (GetValueSettled (Rejected (Thrown ''offline''))),
       Call (OnNavigate tracker), Provide signed_out])) = home"
proof -
  let ?es = "[Settle (GetValueSettled (Rejected (Thrown ''offline''))), Call (OnNavigate tracker)]"
  obtain sys where sys: "run (boot signed_in Map.empty) ?es = Some sys"
    and pg: "page sys = tracker" and usr: "currentUser (ctx sys) = Some alice"
    by (simp add: step_boot_failed step_ready_OnNavigate del: step.simps)
  have "reachable_sys sys"
    using reachable_boot sys by (rule reachable_run)
  moreover obtain sys' where st: "step sys (Provide signed_out) = Some sys'"
    by simp
  ultimately have "page sys' = home"
    using logout_never_leaves_protected_page [of sys alice signed_out sys'] pg usr
    by simp
  moreover have "run (boot signed_in Map.empty) (?es @ [Provide signed_out]) = Some sys'"
    using sys st by (simp only: run_snoc option.case)
  ultimately show ?thesis by simp
qed

text \<open>
  When the providers publish a user, in a reachable
  state without one in which the auth page is shown, the controller goes home.
  It does not return to the page the user came from: that page stays in
  \<open>previousPage\<close>, unused.
\<close>

theorem login_on_auth_page_goes_home:
  assumes "reachable_sys sys" and "currentUser (ctx sys) = None" and "page sys = auth"
    and "currentUser c = Some u" and "step sys (Provide c) = Some sys'"
  shows "page sys' = home \<and>
         previousPage (hooks (comp sys')) = previousPage (hooks (comp sys)) \<and>
         prevUserRef (hooks (comp sys')) = Some u"
proof -
  from assms(1) have "sys_inv sys"
    by (rule reachable_sys_inv)
  then have rest: "at_rest (ctx sys) (comp sys)"
    by (simp add: sys_inv_def)
  from assms(5) have "hooks (comp sys') = watch (hooks (comp sys)) (Some u)"
    unfolding step_Provide [OF rest] using assms(4) by auto
  moreover from rest assms(2) have "prevUserRef (hooks (comp sys)) = None"
    by (simp add: at_rest_def)
  ultimately show ?thesis
    using assms(3) by (simp add: redirects_def)
qed

theorem login_on_auth_page_goes_home_witness:
  "\<exists>sys sys'. run (boot signed_out Map.empty)
      [Settle (GetValueSettled (Rejected (Thrown ''offline''))),
       Call (OnNavigate chat), Call (OnNavigate auth)] = Some sys \<and>
     step sys (Provide signed_in) = Some sys' \<and>
     page sys = auth \<and> page sys' = home \<and> previousPage (hooks (comp sys')) = chat"
proof -
  let ?es = "[Settle (GetValueSettled (Rejected (Thrown ''offline''))),
       Call (OnNavigate chat), Call (OnNavigate auth)]"
  obtain sys where sys: "run (boot signed_out Map.empty) ?es = Some sys"
    and pg: "page sys = auth" "previousPage (hooks (comp sys)) = chat"
    and usr: "currentUser (ctx sys) = None"
    by (simp add: step_boot_failed step_ready_OnNavigate del: step.simps)
  have "reachable_sys sys"
    using reachable_boot sys by (rule reachable_run)
  moreover obtain sys' where st: "step sys (Provide signed_in) = Some sys'"
    by simp
  ultimately have "page sys' = home \<and> previousPage (hooks (comp sys')) = chat"
    using login_on_auth_page_goes_home [of sys signed_in alice sys'] pg usr
    by simp
  with sys st pg show ?thesis by blast
qed


text \<open>
  \<^bold>\<open>C37\<close> (safety). Until the promises have settled nothing else happens:
  in a reachable state in which \<^verbatim>\<open>initializeApp\<close> has not finished, after
  any events that settle no promise the loading indicator is shown, no callback
  can be called, and the component is on the home page as it was mounted, the
  window never scrolled.
\<close>

theorem loading_until_settled:
  assumes "reachable_sys sys" and "phase sys \<noteq> Finished"
    and "run sys es = Some sys'" and "\<forall>e \<in> set es. \<not> is_Settle e"
  shows "view sys' = LoadingIndicator \<and> step sys' (Call ev) = None \<and>
         page sys' = home \<and> scrollCalls (hooks (comp sys')) = []"
proof -
  have "phase sys' = phase sys"
    using assms(3,4)
  proof (induction es arbitrary: sys)
    case Nil
    then show ?case by simp
  next
    case (Cons e es)
    then obtain t where t: "step sys e = Some t" and "run t es = Some sys'"
      by (auto split: option.splits)
    with Cons show ?case
      using phase_step_other [of sys e t] by simp
  qed
  with assms(2) have ph: "phase sys' \<noteq> Finished"
    by simp
  from assms(1,3) have "reachable_sys sys'"
    by (rule reachable_run)
  then have "sys_inv sys'" and "sys_idle sys'"
    using reachable_sys_idle by blast+
  with ph show ?thesis
    by (simp add: sys_inv_def sys_idle_def view_def App_def loading_def)
qed

theorem loading_until_settled_witness:
  "view (the (run (boot signed_out Map.empty) [Provide signed_in, Provide signed_out]))
     = LoadingIndicator"
proof -
  obtain sys' where "run (boot signed_out Map.empty) [Provide signed_in, Provide signed_out] = Some sys'"
    by simp
  then show ?thesis
    using loading_until_settled
      [of "boot signed_out Map.empty" "[Provide signed_in, Provide signed_out]" sys']
    by simp
qed

text \<open>
  In a run from the mount at most three promises settle,
  whatever else happens in between, and the image generator is called at most
  once.
\<close>

theorem at_most_three_settlements:
  assumes "run (boot c db) es = Some sys"
  shows "length (filter is_Settle es) + remaining (phase sys) \<le> 3"
  using settles_run [OF assms] by simp

theorem at_most_three_settlements_witness:
  "run (boot signed_out Map.empty)
     [Settle (GetValueSettled (Fulfilled None)),
      Settle (GenerateImageSettled (Fulfilled ''u'')),
      Settle (SetValueSettled (Fulfilled ())),
      Settle (SetValueSettled (Fulfilled ()))] = None"
proof (rule ccontr)
  assume "\<not> ?thesis"
  then obtain sys where "run (boot signed_out Map.empty)
     [Settle (GetValueSettled (Fulfilled None)),
      Settle (GenerateImageSettled (Fulfilled ''u'')),
      Settle (SetValueSettled (Fulfilled ())),
      Settle (SetValueSettled (Fulfilled ()))] = Some sys"
    by blast
  from at_most_three_settlements [OF this] show False
    by simp
qed

end
