(* ===== verification/Closures.thy ===== *)
theory Closures
  imports Controller
begin

text \<open>
  Callbacks that are called more than once, or late. The page components are
  not part of the sources, and nothing in \<^verbatim>\<open>src/App.tsx\<close> keeps a page from
  calling \<^verbatim>\<open>onNavigate\<close> twice in one event handler, or from calling, in a
  timer or after an awaited request, the callback of a render that is no longer
  on the screen. Both kinds of call go through a closure that has captured the
  \<^verbatim>\<open>currentPage\<close> and the \<^verbatim>\<open>previousPage\<close> of the render that created it
  (lines 46-52 and 88), not the values of the moment.

  \<^item> \<open>closure\<close>: the two pages a callback has captured;
  \<^item> \<open>machine\<close>: the controller of theory \<open>Controller\<close> together with the
    closures its renders have handed out, the intermediate render of a redirect
    included;
  \<^item> \<open>xevent\<close>: an event of the controller (\<open>Ev\<close>), or an event handler of a
    page that calls callbacks of one closure any number of times (\<open>Handler\<close>);
  \<^item> \<open>xstep\<close>, \<open>xrun\<close>: steps and runs; a handler can run when its closure has
    been handed out and offers the callbacks it calls.

  The lemmas reduce a handler to a batch of \<^verbatim>\<open>navigate\<close> calls
  (\<open>handler_writes_targets\<close>), show that the invariant of the controller holds
  in all runs and that the runs without handlers are the runs of the
  controller.
\<close>

section \<open>Closures and handlers\<close>

type_synonym closure = "Page \<times> Page"

definition closure_of :: "app_state \<Rightarrow> closure" where
  "closure_of h = (currentPage h, previousPage h)"

definition offers :: "closure \<Rightarrow> ui_event \<Rightarrow> action list option" where
  "offers cl ev = handler (renderPage (fst cl) (snd cl)) ev"

fun handler_writes :: "closure \<Rightarrow> ui_event list \<Rightarrow> action list option" where
  "handler_writes cl [] = Some []"
| "handler_writes cl (ev # evs) =
     (case offers cl ev of
        None \<Rightarrow> None
      | Some as \<Rightarrow> map_option ((@) as) (handler_writes cl evs))"

section \<open>The machine\<close>

record machine =
  base :: system
  issued :: "closure list"

datatype xevent =
    Ev event
  | Handler closure "ui_event list"

definition issue :: "system \<Rightarrow> closure list \<Rightarrow> closure list" where
  "issue s cls =
     (if loading (ctx s) (hooks (comp s)) then cls else closure_of (hooks (comp s)) # cls)"

definition commit :: "system \<Rightarrow> closure list \<Rightarrow> machine" where
  "commit s cls = \<lparr> base = render s, issued = issue (render s) (issue s cls) \<rparr>"

definition xboot :: "contexts \<Rightarrow> (string \<rightharpoonup> string) \<Rightarrow> machine" where
  "xboot c db = \<lparr> base = boot c db, issued = issue (boot c db) [] \<rparr>"

fun xstep :: "machine \<Rightarrow> xevent \<Rightarrow> machine option" where
  "xstep m (Ev e) = map_option (\<lambda>s. commit s (issued m)) (before_render (base m) e)"
| "xstep m (Handler cl evs) =
     (if cl \<notin> set (issued m) then None
      else map_option (\<lambda>as. commit (write_hooks as (base m)) (issued m))
             (handler_writes cl evs))"

fun xrun :: "machine \<Rightarrow> xevent list \<Rightarrow> machine option" where
  "xrun m [] = Some m"
| "xrun m (x # xs) = (case xstep m x of None \<Rightarrow> None | Some m' \<Rightarrow> xrun m' xs)"

section \<open>A handler is a batch of navigate calls\<close>

text \<open>The page a callback of a closure asks for, when the closure offers it.\<close>

fun target :: "closure \<Rightarrow> ui_event \<Rightarrow> Page option" where
  "target (c, q) (OnNavigate p) = (if c = auth then None else Some p)"
| "target (c, q) OnNavigateBack = (if c = auth then Some q else None)"

fun targets :: "closure \<Rightarrow> ui_event list \<Rightarrow> Page list option" where
  "targets cl [] = Some []"
| "targets cl (ev # evs) =
     (case target cl ev of
        None \<Rightarrow> None
      | Some p \<Rightarrow> map_option ((#) p) (targets cl evs))"

lemma offers_target: "offers cl ev = map_option (navigate (fst cl)) (target cl ev)"
  by (cases cl; cases ev) (simp_all add: offers_def handler_renderPage)

lemma handler_writes_targets:
  "handler_writes cl evs = map_option (navigate_batch (fst cl)) (targets cl evs)"
  by (induction evs) (simp_all add: offers_target option.map_comp o_def split: option.splits)

lemma targets_auth:
  "targets cl evs = Some ps \<Longrightarrow> snd cl \<noteq> auth \<Longrightarrow> auth \<in> set ps \<Longrightarrow> fst cl \<noteq> auth"
proof (induction evs arbitrary: ps)
  case Nil
  then show ?case by simp
next
  case (Cons ev evs)
  then show ?case
    by (cases cl; cases ev) (auto split: option.splits if_splits)
qed

lemma targets_single:
  "targets (closure_of h) [ev] = Some [p] \<longleftrightarrow>
     handler (renderPage (currentPage h) (previousPage h)) ev
       = Some (navigate (currentPage h) p)"
  by (cases ev) (auto simp: closure_of_def handler_renderPage navigate_def)

section \<open>What a batch writes\<close>

lemma run_navigate_batch_simps [simp]:
  "prevUserRef (run_actions s (navigate_batch cur ps)) = prevUserRef s"
  "isAppInitializing (run_actions s (navigate_batch cur ps)) = isAppInitializing s"
  "scrolls_ok (run_actions s (navigate_batch cur ps)) = scrolls_ok s"
  by (induction ps arbitrary: s) simp_all

lemma back_target_ok_navigate_batch:
  "back_target_ok s \<Longrightarrow> auth \<in> set ps \<longrightarrow> cur \<noteq> auth \<Longrightarrow>
     back_target_ok (run_actions s (navigate_batch cur ps))"
  by (simp add: back_target_ok_def previousPage_navigate_batch)

lemma loading_navigate_batch [simp]:
  "loading c (run_actions s (navigate_batch cur ps)) = loading c s"
  by (simp add: loading_def)

lemma render_batch:
  assumes "at_rest (ctx sys) (comp sys)"
  shows "render (write_hooks (navigate_batch cur ps) sys) =
    sys\<lparr> comp := \<lparr> hooks = run_actions (hooks (comp sys)) (navigate_batch cur ps),
      watcherDeps = Some (currentUser (ctx sys),
        currentPage (run_actions (hooks (comp sys)) (navigate_batch cur ps))) \<rparr> \<rparr>"
  using assms by (simp add: render_write_hooks)

lemma sys_inv_batch:
  assumes "sys_inv sys" and "auth \<in> set ps \<longrightarrow> cur \<noteq> auth"
  shows "sys_inv (render (write_hooks (navigate_batch cur ps) sys))"
proof -
  from assms(1) have rest: "at_rest (ctx sys) (comp sys)"
    by (simp add: sys_inv_def)
  from assms show ?thesis
    unfolding render_batch [OF rest]
    by (simp add: sys_inv_def at_rest_def back_target_ok_navigate_batch)
qed

section \<open>Invariant\<close>

definition closures_ok :: "machine \<Rightarrow> bool" where
  "closures_ok m \<longleftrightarrow> sys_inv (base m) \<and> (\<forall>cl \<in> set (issued m). snd cl \<noteq> auth)"

declare closures_ok_def [inv_defs]

lemma issue_ok:
  assumes "back_target_ok (hooks (comp s))" and "\<forall>cl \<in> set cls. snd cl \<noteq> auth"
  shows "\<forall>cl \<in> set (issue s cls). snd cl \<noteq> auth"
  using assms by (simp add: issue_def closure_of_def back_target_ok_def)

lemma closures_ok_commit:
  assumes "sys_inv (render s)" and "back_target_ok (hooks (comp s))"
    and "\<forall>cl \<in> set cls. snd cl \<noteq> auth"
  shows "closures_ok (commit s cls)"
proof -
  from assms(1) have "back_target_ok (hooks (comp (render s)))"
    by (simp add: sys_inv_def)
  moreover have "\<forall>cl \<in> set (issue s cls). snd cl \<noteq> auth"
    using assms(2,3) by (rule issue_ok)
  ultimately have "\<forall>cl \<in> set (issue (render s) (issue s cls)). snd cl \<noteq> auth"
    by (rule issue_ok)
  with assms(1) show ?thesis
    by (simp add: closures_ok_def commit_def)
qed

lemma back_target_ok_before_render:
  assumes "sys_inv sys" and "before_render sys e = Some s"
  shows "back_target_ok (hooks (comp s))"
proof (cases e)
  case (Provide c)
  with assms show ?thesis
    by (auto simp: sys_inv_def)
next
  case (Call ev)
  with assms show ?thesis
    by (auto simp: sys_inv_def App_def intro: back_target_ok_dispatch)
next
  case (Settle r)
  with assms show ?thesis
    by (auto simp: sys_inv_def split: if_splits dest!: init_resume_writes)
qed

lemma closures_ok_xboot [simp]: "closures_ok (xboot c db)"
  by (simp add: closures_ok_def xboot_def issue_def loading_def)

lemma closures_ok_Ev:
  assumes "closures_ok m" and "xstep m (Ev e) = Some m'"
  shows "closures_ok m'"
proof -
  from assms(2) obtain s where s: "before_render (base m) e = Some s"
    and m': "m' = commit s (issued m)"
    by auto
  from s have "step (base m) e = Some (render s)"
    by (simp add: step_before_render)
  with assms(1) have "sys_inv (render s)"
    by (auto simp: closures_ok_def intro: sys_inv_step)
  moreover from assms(1) s have "back_target_ok (hooks (comp s))"
    by (auto simp: closures_ok_def intro: back_target_ok_before_render)
  ultimately show ?thesis
    using assms(1) unfolding m' by (intro closures_ok_commit) (simp_all add: closures_ok_def)
qed

lemma closures_ok_Handler:
  assumes "closures_ok m" and "xstep m (Handler cl evs) = Some m'"
  shows "closures_ok m'"
proof -
  from assms(2) obtain ps where cl: "cl \<in> set (issued m)" and ps: "targets cl evs = Some ps"
    and m': "m' = commit (write_hooks (navigate_batch (fst cl) ps) (base m)) (issued m)"
    by (auto simp: handler_writes_targets split: if_splits)
  from assms(1) cl have "snd cl \<noteq> auth"
    by (auto simp: closures_ok_def)
  with ps have ok: "auth \<in> set ps \<longrightarrow> fst cl \<noteq> auth"
    by (auto dest: targets_auth)
  with assms(1) have "sys_inv (render (write_hooks (navigate_batch (fst cl) ps) (base m)))"
    by (simp add: closures_ok_def sys_inv_batch)
  moreover from assms(1) ok
  have "back_target_ok (hooks (comp (write_hooks (navigate_batch (fst cl) ps) (base m))))"
    by (simp add: closures_ok_def sys_inv_def back_target_ok_navigate_batch)
  ultimately show ?thesis
    using assms(1) unfolding m' by (intro closures_ok_commit) (simp_all add: closures_ok_def)
qed

lemma closures_ok_xstep: "closures_ok m \<Longrightarrow> xstep m x = Some m' \<Longrightarrow> closures_ok m'"
  by (cases x) (blast intro: closures_ok_Ev closures_ok_Handler)+

lemma closures_ok_xrun: "closures_ok m \<Longrightarrow> xrun m xs = Some m' \<Longrightarrow> closures_ok m'"
proof (induction xs arbitrary: m)
  case Nil
  then show ?case by simp
next
  case (Cons x xs)
  then obtain t where "xstep m x = Some t" and "xrun t xs = Some m'"
    by (auto split: option.splits)
  with Cons.prems(1) show ?case
    by (blast intro: Cons.IH closures_ok_xstep)
qed

section \<open>Runs without handlers\<close>

lemma base_xstep_Ev: "map_option base (xstep m (Ev e)) = step (base m) e"
  by (cases "before_render (base m) e") (simp_all add: step_before_render commit_def)

lemma base_xrun_Ev: "map_option base (xrun m (map Ev es)) = run (base m) es"
proof (induction es arbitrary: m)
  case Nil
  then show ?case by simp
next
  case (Cons e es)
  show ?case
  proof (cases "xstep m (Ev e)")
    case None
    with base_xstep_Ev [of m e, symmetric] show ?thesis
      by (simp del: xstep.simps)
  next
    case (Some t)
    with base_xstep_Ev [of m e, symmetric] Cons.IH [of t] show ?thesis
      by (simp del: xstep.simps)
  qed
qed

section \<open>What a handler does\<close>

lemma xstep_Handler:
  assumes "closures_ok m" and "cl \<in> set (issued m)" and "targets cl evs = Some ps"
  obtains m' where "xstep m (Handler cl evs) = Some m'"
    and "base m' = (base m)\<lparr> comp :=
      \<lparr> hooks = run_actions (hooks (comp (base m))) (navigate_batch (fst cl) ps),
        watcherDeps = Some (currentUser (ctx (base m)),
          currentPage (run_actions (hooks (comp (base m))) (navigate_batch (fst cl) ps))) \<rparr> \<rparr>"
    and "set (issued m) \<subseteq> set (issued m')"
proof -
  from assms(1) have "at_rest (ctx (base m)) (comp (base m))"
    by (simp add: closures_ok_def sys_inv_def)
  then have "base (commit (write_hooks (navigate_batch (fst cl) ps) (base m)) (issued m)) =
      (base m)\<lparr> comp :=
      \<lparr> hooks = run_actions (hooks (comp (base m))) (navigate_batch (fst cl) ps),
        watcherDeps = Some (currentUser (ctx (base m)),
          currentPage (run_actions (hooks (comp (base m))) (navigate_batch (fst cl) ps))) \<rparr> \<rparr>"
    by (simp add: commit_def render_batch)
  moreover have "set cls \<subseteq> set (issued (commit s cls))" for s cls
    by (auto simp: commit_def issue_def)
  ultimately show ?thesis
    using assms(2,3) by (intro that) (simp_all add: handler_writes_targets)
qed

lemma xstep_Handler_hooks:
  assumes "closures_ok m" and "xstep m (Handler cl evs) = Some m'"
  obtains ps where "targets cl evs = Some ps"
    and "hooks (comp (base m')) =
      run_actions (hooks (comp (base m))) (navigate_batch (fst cl) ps)"
    and "ctx (base m') = ctx (base m)" and "auth \<in> set ps \<longrightarrow> fst cl \<noteq> auth"
proof -
  from assms(2) obtain ps where cl: "cl \<in> set (issued m)" and ps: "targets cl evs = Some ps"
    by (auto simp: handler_writes_targets split: if_splits)
  from assms(1) cl have "snd cl \<noteq> auth"
    by (auto simp: closures_ok_def)
  with ps have "auth \<in> set ps \<longrightarrow> fst cl \<noteq> auth"
    by (auto dest: targets_auth)
  moreover obtain t where t: "xstep m (Handler cl evs) = Some t"
    and b: "base t = (base m)\<lparr> comp :=
      \<lparr> hooks = run_actions (hooks (comp (base m))) (navigate_batch (fst cl) ps),
        watcherDeps = Some (currentUser (ctx (base m)),
          currentPage (run_actions (hooks (comp (base m))) (navigate_batch (fst cl) ps))) \<rparr> \<rparr>"
    by (rule xstep_Handler [OF assms(1) cl ps])
  moreover from t assms(2) have "m' = t"
    by simp
  ultimately show ?thesis
    using ps by (intro that [of ps]) simp_all
qed

text \<open>A render that shows a page hands out its closure.\<close>

lemma issued_xstep_Ev:
  assumes "xstep m (Ev e) = Some m'"
    and "\<not> loading (ctx (base m')) (hooks (comp (base m')))"
  shows "closure_of (hooks (comp (base m'))) \<in> set (issued m')"
  using assms by (auto simp: commit_def issue_def simp del: render_simps)

section \<open>Sample run\<close>

text \<open>
  The read of the avatar fails and the home page is shown. A handler of the home
  page asks for the chat page and then for the auth page; later, while the auth
  page is shown, a callback kept from the home page asks for the profile page.
\<close>

definition sample_handlers :: "xevent list" where
  "sample_handlers =
     [Ev (Settle (GetValueSettled (Rejected (Thrown ''offline'')))),
      Handler (home, home) [OnNavigate chat, OnNavigate auth],
      Handler (home, home) [OnNavigate profile]]"

lemma issued_xstep: "xstep m x = Some m' \<Longrightarrow> set (issued m) \<subseteq> set (issued m')"
  by (cases x) (auto simp: commit_def issue_def split: if_splits)

lemma xstep_xboot_failed:
  obtains m where
    "xstep (xboot signed_out Map.empty) (Ev (Settle (GetValueSettled (Rejected e)))) = Some m"
    and "base m = (boot signed_out Map.empty)\<lparr> phase := Finished,
        io := [GetValue avatarKey, ConsoleError initFailedMessage e],
        comp := ready signed_out home home [] \<rparr>"
    and "closures_ok m" and "(home, home) \<in> set (issued m)"
proof -
  let ?e = "Settle (GetValueSettled (Rejected e))"
  obtain m where m: "xstep (xboot signed_out Map.empty) (Ev ?e) = Some m"
    and b: "base m = (boot signed_out Map.empty)\<lparr> phase := Finished,
        io := [GetValue avatarKey, ConsoleError initFailedMessage e],
        comp := ready signed_out home home [] \<rparr>"
    using base_xstep_Ev [of "xboot signed_out Map.empty" ?e]
    by (auto simp: step_boot_failed xboot_def simp del: step.simps xstep.simps)
  have ok: "closures_ok m"
    using closures_ok_xboot m by (rule closures_ok_xstep)
  have "closure_of (hooks (comp (base m))) \<in> set (issued m)"
    using m by (rule issued_xstep_Ev) (simp add: b loading_def)
  then have "(home, home) \<in> set (issued m)"
    by (simp add: b closure_of_def)
  with m b ok show ?thesis
    by (rule that)
qed

lemma xrun_sample_handlers:
  obtains m2 m where "xrun (xboot signed_out Map.empty) (butlast sample_handlers) = Some m2"
    and "xstep m2 (last sample_handlers) = Some m"
    and "xrun (xboot signed_out Map.empty) sample_handlers = Some m"
    and "page (base m2) = auth" and "\<not> loading (ctx (base m2)) (hooks (comp (base m2)))"
    and "page (base m) = profile" and "previousPage (hooks (comp (base m))) = home"
    and "length (scrollCalls (hooks (comp (base m)))) = 3" and "ctx (base m) = signed_out"
proof -
  let ?e = "Settle (GetValueSettled (Rejected (Thrown ''offline'')))"
  obtain m1 where m1: "xstep (xboot signed_out Map.empty) (Ev ?e) = Some m1"
    and b1: "base m1 = (boot signed_out Map.empty)\<lparr> phase := Finished,
        io := [GetValue avatarKey, ConsoleError initFailedMessage (Thrown ''offline'')],
        comp := ready signed_out home home [] \<rparr>"
    and ok1: "closures_ok m1" and i1: "(home, home) \<in> set (issued m1)"
    by (rule xstep_xboot_failed)
  obtain m2 where m2: "xstep m1 (Handler (home, home) [OnNavigate chat, OnNavigate auth]) = Some m2"
    and b2: "base m2 = (base m1)\<lparr> comp := ready signed_out auth home [(0, 0), (0, 0)] \<rparr>"
    using xstep_Handler [OF ok1 i1, of "[OnNavigate chat, OnNavigate auth]" "[chat, auth]"]
    by (auto simp: b1 ready_def run_navigate simp del: xstep.simps)
  have ok2: "closures_ok m2"
    using ok1 m2 by (rule closures_ok_xstep)
  from i1 issued_xstep [OF m2] have i2: "(home, home) \<in> set (issued m2)"
    by blast
  obtain m3 where m3: "xstep m2 (Handler (home, home) [OnNavigate profile]) = Some m3"
    and b3: "base m3 = (base m2)\<lparr> comp := ready signed_out profile home [(0, 0), (0, 0), (0, 0)] \<rparr>"
    using xstep_Handler [OF ok2 i2, of "[OnNavigate profile]" "[profile]"]
    by (auto simp: b1 b2 ready_def run_navigate simp del: xstep.simps)
  have "xrun (xboot signed_out Map.empty) (butlast sample_handlers) = Some m2"
    and "xstep m2 (last sample_handlers) = Some m3"
    and "xrun (xboot signed_out Map.empty) sample_handlers = Some m3"
    using m1 m2 m3 by (simp_all add: sample_handlers_def del: xstep.simps)
  then show ?thesis
    by (rule that) (simp_all add: b3 b2 b1 loading_def)
qed

text \<open>
  The home page is shown, then the identity provider loads again and the
  loading indicator replaces the page. A callback kept from the home page asks
  for the chat page.
\<close>

definition sample_loading :: "xevent list" where
  "sample_loading =
     [Ev (Settle (GetValueSettled (Rejected (Thrown ''offline'')))),
      Ev (Provide (signed_out\<lparr>isAuthLoading := True\<rparr>)),
      Handler (home, home) [OnNavigate chat]]"

lemma xrun_sample_loading:
  obtains m2 m where "xrun (xboot signed_out Map.empty) (butlast sample_loading) = Some m2"
    and "xstep m2 (last sample_loading) = Some m"
    and "page (base m2) = home" and "loading (ctx (base m2)) (hooks (comp (base m2)))"
    and "page (base m) = chat"
proof -
  let ?e = "Settle (GetValueSettled (Rejected (Thrown ''offline'')))"
  let ?c = "signed_out\<lparr>isAuthLoading := True\<rparr>"
  obtain m1 where m1: "xstep (xboot signed_out Map.empty) (Ev ?e) = Some m1"
    and b1: "base m1 = (boot signed_out Map.empty)\<lparr> phase := Finished,
        io := [GetValue avatarKey, ConsoleError initFailedMessage (Thrown ''offline'')],
        comp := ready signed_out home home [] \<rparr>"
    and ok1: "closures_ok m1" and i1: "(home, home) \<in> set (issued m1)"
    by (rule xstep_xboot_failed)
  have "step (base m1) (Provide ?c) = Some ((base m1)\<lparr> ctx := ?c \<rparr>)"
    unfolding b1 by (subst step_Provide) (simp_all add: at_rest_def ready_def)
  then obtain m2 where m2: "xstep m1 (Ev (Provide ?c)) = Some m2"
    and b2: "base m2 = (base m1)\<lparr> ctx := ?c \<rparr>"
    using base_xstep_Ev [of m1 "Provide ?c"]
    by (auto simp del: step.simps xstep.simps)
  have ok2: "closures_ok m2"
    using ok1 m2 by (rule closures_ok_xstep)
  from i1 issued_xstep [OF m2] have i2: "(home, home) \<in> set (issued m2)"
    by blast
  obtain m3 where m3: "xstep m2 (Handler (home, home) [OnNavigate chat]) = Some m3"
    and b3: "base m3 = (base m2)\<lparr> comp := ready signed_out chat home [(0, 0)] \<rparr>"
    using xstep_Handler [OF ok2 i2, of "[OnNavigate chat]" "[chat]"]
    by (auto simp: b1 b2 ready_def run_navigate simp del: xstep.simps)
  have "xrun (xboot signed_out Map.empty) (butlast sample_loading) = Some m2"
    and "xstep m2 (last sample_loading) = Some m3"
    using m1 m2 m3 by (simp_all add: sample_loading_def del: xstep.simps)
  then show ?thesis
    by (rule that) (simp_all add: b3 b2 b1 loading_def)
qed

section \<open>Properties of the machine with handlers\<close>

text \<open>
  \<^bold>\<open>C10\<close> (invariant). Late and repeated calls do not break the controller.
  In every run in which pages call the callbacks of any render that has been on
  the screen, any number of times in one handler: the remembered user is the
  current user, the page to go back to is not the auth page (in the hooks and
  in every closure handed out), the initialising flag is set exactly while
  \<^verbatim>\<open>initializeApp\<close> has not finished, the window has only been scrolled to
  the top, and a further render would change nothing.
\<close>

theorem handlers_keep_invariants:
  assumes "xrun (xboot c db) xs = Some m"
  shows "prevUserRef (hooks (comp (base m))) = currentUser (ctx (base m)) \<and>
         previousPage (hooks (comp (base m))) \<noteq> auth \<and>
         isAppInitializing (hooks (comp (base m))) = (phase (base m) \<noteq> Finished) \<and>
         set (scrollCalls (hooks (comp (base m)))) \<subseteq> {(0, 0)} \<and>
         render (base m) = base m \<and>
         (\<forall>cl \<in> set (issued m). snd cl \<noteq> auth)"
proof -
  have ok: "closures_ok m"
    using closures_ok_xboot assms by (rule closures_ok_xrun)
  then have "settle (ctx (base m)) (comp (base m)) = comp (base m)"
    by (simp add: closures_ok_def sys_inv_def)
  then have "render (base m) = base m"
    by (simp add: render_def)
  with ok show ?thesis
    by (simp add: closures_ok_def sys_inv_def at_rest_def back_target_ok_def scrolls_ok_def)
qed

theorem handlers_keep_invariants_witness:
  "\<exists>m. xrun (xboot signed_out Map.empty) sample_handlers = Some m \<and>
     page (base m) = profile \<and> previousPage (hooks (comp (base m))) = home \<and>
     prevUserRef (hooks (comp (base m))) = None \<and>
     set (scrollCalls (hooks (comp (base m)))) \<subseteq> {(0, 0)}"
proof -
  obtain m2 m where m: "xrun (xboot signed_out Map.empty) sample_handlers = Some m"
    and "page (base m) = profile" and "previousPage (hooks (comp (base m))) = home"
    and "ctx (base m) = signed_out"
    by (rule xrun_sample_handlers)
  then show ?thesis
    using handlers_keep_invariants [OF m] by auto
qed

end
