(* ===== verification/Runtime.thy ===== *)
theory Runtime
  imports Render
begin

text \<open>
  The pages at run time. TypeScript erases the type \<^verbatim>\<open>Page\<close> of
  \<^verbatim>\<open>src/types.ts\<close> (lines 12-20): when the program runs, \<^verbatim>\<open>currentPage\<close> and
  \<^verbatim>\<open>previousPage\<close> are strings, the tests \<^verbatim>\<open>page === 'auth'\<close> and
  \<^verbatim>\<open>protectedPages.includes(currentPage)\<close> of \<^verbatim>\<open>src/App.tsx\<close> compare strings,
  and the \<^verbatim>\<open>switch\<close> of \<^verbatim>\<open>renderPage\<close> has a \<^verbatim>\<open>default\<close> branch (lines
  89-90) for the strings that are no page.

  \<^item> \<open>Page_literal\<close> (theory \<open>Types\<close>) is the string a page is at run time,
    \<open>Page_of_literal\<close> its partial inverse, \<open>is_Page\<close> the strings of the
    type;
  \<^item> \<open>js_pages\<close> are the two page hooks as strings; \<open>navigate_js\<close>,
    \<open>redirects_js\<close> and \<open>renderPage_js\<close> are \<^verbatim>\<open>navigate\<close>, the tests of the
    identity effect and \<^verbatim>\<open>renderPage\<close> on them, the \<^verbatim>\<open>default\<close> branch
    included;
  \<^item> \<open>erase\<close> takes a state of the typed model to its run-time content.

  The lemmas show that the hooks stay strings of the type \<^verbatim>\<open>Page\<close> as long as
  \<^verbatim>\<open>navigate\<close> is called with such strings, that the typed model of the
  theories \<open>Navigation\<close>, \<open>Watcher\<close> and \<open>Render\<close> is the run-time behaviour
  on typed states, and that the \<^verbatim>\<open>default\<close> branch is taken for no typed
  state.
\<close>

section \<open>Pages as strings\<close>

definition Page_of_literal :: "string \<Rightarrow> Page option" where
  "Page_of_literal = of_literal Page_literal"

definition is_Page :: "string \<Rightarrow> bool" where
  "is_Page = is_literal Page_literal"

lemma Page_of_literal_Page_literal [simp]: "Page_of_literal (Page_literal p) = Some p"
  by (simp add: Page_of_literal_def)

lemma Page_of_literal_Some: "Page_of_literal s = Some p \<longleftrightarrow> s = Page_literal p"
  by (simp add: Page_of_literal_def of_literal_Some_iff)

lemma inj_Page_literal: "inj Page_literal"
  by (simp add: inj_literal)

lemma Page_literal_eq [simp]: "Page_literal p = Page_literal q \<longleftrightarrow> p = q"
  by (simp add: literal_eq_iff)

lemma is_Page_iff: "is_Page s \<longleftrightarrow> (\<exists>p. s = Page_literal p)"
  by (simp add: is_Page_def is_literal_iff)

lemma is_Page_literal [simp]: "is_Page (Page_literal p)"
  by (simp add: is_Page_def)

lemma is_Page_simps [simp]:
  "is_Page ''home''" "is_Page ''chat''" "is_Page ''learn''" "is_Page ''directory''"
  "is_Page ''tracker''" "is_Page ''community''" "is_Page ''profile''" "is_Page ''auth''"
  "\<not> is_Page ''settings''"
  by (simp_all add: is_Page_def is_literal_def of_literal_def enum_Page_def)

lemma Page_literal_simps [simp]:
  "Page_literal p = ''home'' \<longleftrightarrow> p = home"
  "Page_literal p = ''chat'' \<longleftrightarrow> p = chat"
  "Page_literal p = ''learn'' \<longleftrightarrow> p = learn"
  "Page_literal p = ''directory'' \<longleftrightarrow> p = directory"
  "Page_literal p = ''tracker'' \<longleftrightarrow> p = tracker"
  "Page_literal p = ''community'' \<longleftrightarrow> p = community"
  "Page_literal p = ''profile'' \<longleftrightarrow> p = profile"
  "Page_literal p = ''auth'' \<longleftrightarrow> p = auth"
  by (cases p; simp)+

section \<open>The page hooks at run time\<close>

record js_pages =
  currentPage_js :: string
  previousPage_js :: string

definition mount_js :: js_pages where
  "mount_js = \<lparr> currentPage_js = ''home'', previousPage_js = ''home'' \<rparr>"

definition navigate_js :: "js_pages \<Rightarrow> string \<Rightarrow> js_pages" where
  "navigate_js s page =
     s\<lparr> previousPage_js := (if page = ''auth'' then currentPage_js s else previousPage_js s),
        currentPage_js := page \<rparr>"

definition protectedPages_js :: "string list" where
  "protectedPages_js = [''profile'', ''tracker'']"

definition redirects_js :: "bool \<Rightarrow> bool \<Rightarrow> string \<Rightarrow> bool" where
  "redirects_js prev usr cur \<longleftrightarrow>
     (if \<not> prev \<and> usr then cur = ''auth''
      else if prev \<and> \<not> usr then List.member protectedPages_js cur
      else False)"

definition watcher_js :: "bool \<Rightarrow> bool \<Rightarrow> js_pages \<Rightarrow> js_pages" where
  "watcher_js prev usr s =
     (if redirects_js prev usr (currentPage_js s) then navigate_js s ''home'' else s)"

definition renderPage_js ::
  "string \<Rightarrow> (Page \<Rightarrow> action list) \<Rightarrow> action list \<Rightarrow> page_element" where
  "renderPage_js cur nav back =
     (if cur = ''home'' then HomePage nav
      else if cur = ''chat'' then ChatPage nav
      else if cur = ''learn'' then LearnPage nav
      else if cur = ''directory'' then DirectoryPage nav
      else if cur = ''tracker'' then SymptomTrackerPage nav
      else if cur = ''community'' then CommunityPage nav
      else if cur = ''profile'' then ProfilePage nav
      else if cur = ''auth'' then AuthPage back
      else HomePage nav)"

section \<open>Typed states\<close>

definition typed_js :: "js_pages \<Rightarrow> bool" where
  "typed_js s \<longleftrightarrow> is_Page (currentPage_js s) \<and> is_Page (previousPage_js s)"

definition erase :: "app_state \<Rightarrow> js_pages" where
  "erase s =
     \<lparr> currentPage_js = Page_literal (currentPage s),
       previousPage_js = Page_literal (previousPage s) \<rparr>"

lemma typed_js_mount [simp]: "typed_js mount_js"
  by (simp add: typed_js_def mount_js_def)

lemma typed_js_erase [simp]: "typed_js (erase s)"
  by (simp add: typed_js_def erase_def)

lemma typed_js_is_erase: "typed_js t \<Longrightarrow> \<exists>s. t = erase s"
proof -
  assume "typed_js t"
  then obtain p q where "currentPage_js t = Page_literal p" "previousPage_js t = Page_literal q"
    by (auto simp: typed_js_def is_Page_iff)
  then have "t = erase \<lparr> currentPage = p, previousPage = q, isAppInitializing = True,
      prevUserRef = None, scrollCalls = [] \<rparr>"
    by (simp add: erase_def)
  then show ?thesis ..
qed

lemma erase_mount [simp]: "erase (mount ctx) = mount_js"
  by (simp add: erase_def mount_js_def)

lemma typed_js_navigate_js:
  "typed_js s \<Longrightarrow> is_Page page \<Longrightarrow> typed_js (navigate_js s page)"
  by (simp add: typed_js_def navigate_js_def)

lemma erase_do_navigate: "erase (do_navigate s p) = navigate_js (erase s) (Page_literal p)"
  by (simp add: erase_def navigate_js_def)

lemma redirects_js_erase:
  "redirects_js (truthy prev) (truthy usr) (Page_literal cur) \<longleftrightarrow> redirects prev usr cur"
  by (auto simp: redirects_js_def redirects_def protectedPages_js_def truthy_iff)

lemma erase_watch:
  "erase (watch s usr) = watcher_js (truthy (prevUserRef s)) (truthy usr) (erase s)"
  by (simp add: watcher_js_def erase_def redirects_js_erase navigate_js_def)

lemma renderPage_js_Page_literal:
  "renderPage_js (Page_literal cur) (navigate cur) (navigate cur prev) = renderPage cur prev"
  by (cases cur) (simp_all add: renderPage_js_def renderPage_def)

lemma renderPage_js_default:
  assumes "\<not> is_Page cur"
  shows "renderPage_js cur nav back = HomePage nav"
proof -
  have "cur \<noteq> Page_literal p" for p
    using assms by (auto simp: is_Page_iff)
  from this [of chat] this [of learn] this [of directory] this [of tracker]
    this [of community] this [of profile] this [of auth]
  show ?thesis
    by (simp add: renderPage_js_def)
qed

section \<open>Properties of the run-time view\<close>

text \<open>
  \<^bold>\<open>C34\<close> (type). The page hooks keep their type: from a state in which both
  hold strings of the type \<^verbatim>\<open>Page\<close>, a call of \<^verbatim>\<open>navigate\<close> with such a
  string and a run of the identity effect lead to such a state again, and in
  such a state the \<^verbatim>\<open>switch\<close> of \<^verbatim>\<open>renderPage\<close> takes the branch of the
  current page, never the \<^verbatim>\<open>default\<close> branch.
\<close>

theorem page_hooks_stay_typed:
  assumes "typed_js s" and "is_Page page"
  shows "typed_js (navigate_js s page) \<and> typed_js (watcher_js prev usr s) \<and>
         (\<exists>p. currentPage_js s = Page_literal p \<and>
              page_of (renderPage_js (currentPage_js s) nav back) = p)"
proof -
  from assms(1) obtain p where p: "currentPage_js s = Page_literal p"
    by (auto simp: typed_js_def is_Page_iff)
  have "page_of (renderPage_js (Page_literal p) nav back) = p"
    by (cases p) (simp_all add: renderPage_js_def)
  moreover have "typed_js (watcher_js prev usr s)"
    using assms(1) by (simp add: watcher_js_def typed_js_navigate_js)
  ultimately show ?thesis
    using assms p by (simp add: typed_js_navigate_js)
qed

theorem page_hooks_stay_typed_witness:
  "typed_js (navigate_js mount_js ''auth'') \<and>
   page_of (renderPage_js (currentPage_js mount_js) (navigate home) []) = home"
  using page_hooks_stay_typed [of mount_js "''auth''" False False "navigate home" "[]"]
  by (simp add: mount_js_def typed_js_def renderPage_js_def)

text \<open>
  \<^bold>\<open>C35\<close> (equivalence). The typed model is the run-time behaviour: erasing
  the types commutes with \<^verbatim>\<open>navigate\<close> and with the identity effect, the
  string tests of the effect are the tests on pages, and \<^verbatim>\<open>renderPage\<close> on
  the erased page returns the element of the typed model. A string that is no
  page gets the home page.
\<close>

theorem erasure_commutes:
  "erase (do_navigate s p) = navigate_js (erase s) (Page_literal p) \<and>
   erase (watch s usr) = watcher_js (truthy (prevUserRef s)) (truthy usr) (erase s) \<and>
   renderPage_js (currentPage_js (erase s)) (navigate (currentPage s))
       (navigate (currentPage s) (previousPage s))
     = renderPage (currentPage s) (previousPage s) \<and>
   renderPage_js ''settings'' nav back = HomePage nav"
proof -
  have "currentPage_js (erase s) = Page_literal (currentPage s)"
    by (simp add: erase_def)
  moreover have "renderPage_js ''settings'' nav back = HomePage nav"
    by (rule renderPage_js_default) simp
  ultimately show ?thesis
    by (simp add: erase_do_navigate erase_watch renderPage_js_Page_literal)
qed

end
