(* ===== verification/Startup.thy ===== *)
theory Startup
  imports Controller
begin

text \<open>
  The start-up initialisation inside the controller: what the machine of theory
  \<open>Controller\<close> does with the promises \<^verbatim>\<open>initializeApp\<close> waits for
  (\<^verbatim>\<open>src/App.tsx\<close>, lines 26-44), with the key-value store and with the log of
  the calls.

  \<^item> \<open>compatible\<close>, \<open>settlements\<close>: the \<open>Settle\<close> events that given
    collaborators produce, and that they end the initialisation;
  \<^item> \<open>cached_inv\<close>: a stored avatar is kept; \<open>written_inv\<close>: a written avatar
    is stored;
  \<^item> \<open>log_inv\<close>, \<open>env_of_log\<close>, \<open>store_of_run\<close>: the calls made so far in
    each phase, and that a finished initialisation has made the calls of the
    function of theory \<open>InitApp\<close> run as a whole.
\<close>

section \<open>Settling the promises of the initialisation\<close>

text \<open>
  Collaborators are compatible with a store when their answer to the read of
  the avatar is a failure or the content of the store. \<open>settlements\<close> is the
  sequence of \<open>Settle\<close> events they produce from a phase on.
\<close>

definition compatible :: "collaborators \<Rightarrow> (string \<rightharpoonup> string) \<Rightarrow> bool" where
  "compatible env db \<longleftrightarrow> gateway_allows db (GetValueSettled (getValue_result env avatarKey))"

fun settlements :: "collaborators \<Rightarrow> nat \<Rightarrow> init_phase \<Rightarrow> event list" where
  "settlements env 0 ph = []"
| "settlements env (Suc n) ph =
     (case env_answer env ph of
        None \<Rightarrow> []
      | Some r \<Rightarrow>
          (case init_resume ph r of
             None \<Rightarrow> []
           | Some (ph', cs, as) \<Rightarrow> Settle r # settlements env n ph'))"

lemma length_settlements: "length (settlements env n ph) \<le> n"
  by (induction n arbitrary: ph) (auto split: option.splits)

lemma settlements_are_Settle: "e \<in> set (settlements env n ph) \<Longrightarrow> is_Settle e"
  by (induction n arbitrary: ph) (auto split: option.splits)

lemma gateway_allows_later:
  "ph \<noteq> AwaitGetValue \<Longrightarrow> init_resume ph r = Some st \<Longrightarrow> gateway_allows db r"
  by (induction ph r rule: init_resume.induct) simp_all

text \<open>A pending promise can settle the way the collaborators settle it.\<close>

lemma step_env_answer:
  assumes "sys_inv sys" and "phase sys \<noteq> Finished"
    and "phase sys = AwaitGetValue \<longrightarrow> compatible env (store sys)"
  obtains r ph' cs as t
  where "env_answer env (phase sys) = Some r"
    and "init_resume (phase sys) r = Some (ph', cs, as)"
    and "step sys (Settle r) = Some t" and "phase t = ph'"
proof -
  from assms(1,2) have "awaiting (phase sys)" and rest: "at_rest (ctx sys) (comp sys)"
    by (simp_all add: sys_inv_def awaiting_def)
  then obtain r ph' cs as
    where r: "env_answer env (phase sys) = Some r"
      and res: "init_resume (phase sys) r = Some (ph', cs, as)"
    using env_answer_accepted [of "phase sys" env] by (metis prod_cases3)
  have ok: "gateway_allows (store sys) r"
  proof (cases "phase sys = AwaitGetValue")
    case True
    with r assms(3) show ?thesis
      by (auto simp: compatible_def)
  next
    case False
    then show ?thesis
      using res by (rule gateway_allows_later)
  qed
  obtain t where "step sys (Settle r) = Some t" and "phase t = ph'"
    using step_Settle [OF rest ok res] by simp
  with r res show ?thesis
    by (rule that)
qed

lemma run_settlements:
  assumes "sys_inv sys" and "remaining (phase sys) \<le> n"
    and "phase sys = AwaitGetValue \<longrightarrow> compatible env (store sys)"
  shows "\<exists>sys'. run sys (settlements env n (phase sys)) = Some sys' \<and> phase sys' = Finished"
  using assms
proof (induction n arbitrary: sys)
  case 0
  then have "phase sys = Finished"
    by (cases "phase sys") simp_all
  then show ?case by simp
next
  case (Suc n)
  show ?case
  proof (cases "phase sys = Finished")
    case True
    then show ?thesis by simp
  next
    case False
    from Suc.prems(1) False Suc.prems(3) obtain r ph' cs as t
      where r: "env_answer env (phase sys) = Some r"
        and res: "init_resume (phase sys) r = Some (ph', cs, as)"
        and t: "step sys (Settle r) = Some t" and ph: "phase t = ph'"
      by (rule step_env_answer)
    have less: "remaining (phase t) < remaining (phase sys)"
      using t by (rule phase_step_Settle)
    have "sys_inv t"
      using Suc.prems(1) t by (rule sys_inv_step)
    moreover have "remaining (phase t) \<le> n"
      using less Suc.prems(2) by simp
    moreover have "phase t \<noteq> AwaitGetValue"
      using less remaining_started [of "phase sys"] Suc.prems(1)
      by (auto simp: sys_inv_def)
    ultimately obtain sys' where "run t (settlements env n (phase t)) = Some sys'"
      and "phase sys' = Finished"
      using Suc.IH [of t] by auto
    with r res t ph show ?thesis by simp
  qed
qed

section \<open>A stored avatar\<close>

definition has_avatar :: "(string \<rightharpoonup> string) \<Rightarrow> bool" where
  "has_avatar db \<longleftrightarrow> truthy_string (db avatarKey)"

text \<open>The calls that neither ask the generator for an image nor write the store.\<close>

fun quiet :: "io_call \<Rightarrow> bool" where
  "quiet (GenerateImage p) = False"
| "quiet (SetValue k v) = False"
| "quiet _ = True"

definition cached_inv :: "(string \<rightharpoonup> string) \<Rightarrow> system \<Rightarrow> bool" where
  "cached_inv db sys \<longleftrightarrow>
     store sys = db \<and> (phase sys = AwaitGetValue \<or> phase sys = Finished) \<and>
     list_all quiet (io sys)"

lemma cached_inv_boot [simp]: "cached_inv db (boot c db)"
  by (simp add: cached_inv_def)

lemma cached_inv_step:
  assumes "has_avatar db" and "cached_inv db sys" and "step sys e = Some sys'"
  shows "cached_inv db sys'"
proof (cases "is_Settle e")
  case False
  with assms(2,3) show ?thesis
    using phase_step_other [of sys e sys'] by (simp add: cached_inv_def)
next
  case True
  then obtain r where e: "e = Settle r" by (cases e) simp_all
  show ?thesis
  proof (cases "phase sys = Finished")
    case True
    with assms(3) e show ?thesis by (simp split: if_splits)
  next
    case False
    with assms(2) have ph: "phase sys = AwaitGetValue"
      by (simp add: cached_inv_def)
    show ?thesis
    proof (cases r)
      case (GetValueSettled x)
      with assms ph e show ?thesis
        by (cases x)
          (auto simp: cached_inv_def has_avatar_def finally_block_def catch_block_def
            split: if_splits)
    next
      case (GenerateImageSettled x)
      with assms(3) ph e show ?thesis by simp
    next
      case (SetValueSettled x)
      with assms(3) ph e show ?thesis by simp
    qed
  qed
qed

lemma cached_inv_run:
  "has_avatar db \<Longrightarrow> cached_inv db sys \<Longrightarrow> run sys es = Some sys' \<Longrightarrow> cached_inv db sys'"
proof (induction es arbitrary: sys)
  case Nil
  then show ?case by simp
next
  case (Cons e es)
  then obtain t where "step sys e = Some t" and "run t es = Some sys'"
    by (auto split: option.splits)
  with Cons.prems(1,2) show ?case
    by (blast intro: Cons.IH cached_inv_step)
qed

section \<open>A generated avatar\<close>

text \<open>
  Where the last call of \<^verbatim>\<open>initializeApp\<close> stands for each phase, and that a
  run whose last call is the write of the avatar has stored it.
\<close>

definition written_inv :: "system \<Rightarrow> bool" where
  "written_inv sys \<longleftrightarrow>
     io sys \<noteq> [] \<and>
     (case phase sys of
        NotStarted \<Rightarrow> True
      | AwaitGetValue \<Rightarrow> last (io sys) = GetValue avatarKey
      | AwaitGenerateImage \<Rightarrow> last (io sys) = GenerateImage aiAvatarPrompt
      | AwaitSetValue avatarUrl \<Rightarrow> last (io sys) = SetValue avatarKey avatarUrl
      | Finished \<Rightarrow>
          (\<forall>avatarUrl. last (io sys) = SetValue avatarKey avatarUrl
             \<longrightarrow> store sys avatarKey = Some avatarUrl))"

declare written_inv_def [inv_defs]

fun_cases init_resume_AwaitGetValueE: "init_resume AwaitGetValue r = Some st"
fun_cases init_resume_AwaitGenerateImageE: "init_resume AwaitGenerateImage r = Some st"
fun_cases init_resume_AwaitSetValueE: "init_resume (AwaitSetValue avatarUrl) r = Some st"

lemmas init_resumeE =
  init_resume_AwaitGetValueE init_resume_AwaitGenerateImageE init_resume_AwaitSetValueE

lemma written_inv_boot [simp]: "written_inv (boot c db)"
  by (simp add: written_inv_def)

lemma written_inv_Settle:
  assumes "written_inv sys" and "step sys (Settle r) = Some sys'"
  shows "written_inv sys'"
proof -
  from assms(2) obtain ph calls as
    where res: "init_resume (phase sys) r = Some (ph, calls, as)"
      and sys': "sys' = render (write_hooks as
        (sys\<lparr> phase := ph, io := io sys @ calls,
              store := store_after (store sys) (phase sys) r \<rparr>))"
    by (auto split: if_splits option.splits)
  show ?thesis
  proof (cases "phase sys")
    case NotStarted
    with res show ?thesis by simp
  next
    case AwaitGetValue
    with res assms(1) show ?thesis
      unfolding sys'
      by (auto elim!: init_resume_AwaitGetValueE
          simp: written_inv_def finally_block_def catch_block_def split: if_splits)
  next
    case AwaitGenerateImage
    with res assms(1) show ?thesis
      unfolding sys'
      by (auto elim!: init_resume_AwaitGenerateImageE
          simp: written_inv_def finally_block_def catch_block_def)
  next
    case (AwaitSetValue avatarUrl)
    with res assms(1) show ?thesis
      unfolding sys'
      by (auto elim!: init_resume_AwaitSetValueE
          simp: written_inv_def finally_block_def catch_block_def)
  next
    case Finished
    with res show ?thesis by simp
  qed
qed

lemma written_inv_step:
  assumes "written_inv sys" and "step sys e = Some sys'"
  shows "written_inv sys'"
proof (cases "is_Settle e")
  case True
  then obtain r where "e = Settle r" by (cases e) simp_all
  with assms show ?thesis
    by (blast intro: written_inv_Settle)
next
  case False
  with assms show ?thesis
    using phase_step_other [of sys e sys']
    by (auto simp: written_inv_def split: init_phase.splits)
qed

lemma written_inv_run:
  "written_inv sys \<Longrightarrow> run sys es = Some sys' \<Longrightarrow> written_inv sys'"
proof (induction es arbitrary: sys)
  case Nil
  then show ?case by simp
next
  case (Cons e es)
  then obtain t where "step sys e = Some t" and "run t es = Some sys'"
    by (auto split: option.splits)
  with Cons.prems(1) show ?case
    by (blast intro: Cons.IH written_inv_step)
qed

section \<open>The log of the initialisation\<close>

text \<open>
  The calls the suspended \<^verbatim>\<open>initializeApp\<close> has made so far, phase by phase,
  and what a finished one has done: its calls are the calls of the function run
  as a whole (theory \<open>InitApp\<close>) against some collaborators that read the
  store as it was at the mount, and the store is what that run leaves.
\<close>

fun apply_call :: "(string \<rightharpoonup> string) \<Rightarrow> io_call \<Rightarrow> (string \<rightharpoonup> string)" where
  "apply_call db (SetValue k v) = db(k \<mapsto> v)"
| "apply_call db _ = db"

definition store_of_run :: "collaborators \<Rightarrow> (string \<rightharpoonup> string) \<Rightarrow> (string \<rightharpoonup> string)" where
  "store_of_run env db =
     (case try_block env of
        (Inl e, calls) \<Rightarrow> db
      | (Inr u, calls) \<Rightarrow> foldl apply_call db calls)"

definition is_run_of :: "(string \<rightharpoonup> string) \<Rightarrow> system \<Rightarrow> collaborators \<Rightarrow> bool" where
  "is_run_of db sys env \<longleftrightarrow>
     compatible env db \<and> io sys = fst (initializeApp env) \<and> store sys = store_of_run env db"

text \<open>
  The answers of the collaborators can be read off the log: the error that was
  logged is the value the failing call threw, the call that failed is the last
  one made, and the avatar that was written is the one the generator returned.
\<close>

fun is_ConsoleError :: "io_call \<Rightarrow> bool" where
  "is_ConsoleError (ConsoleError m e) = True"
| "is_ConsoleError _ = False"

fun is_SetValue :: "io_call \<Rightarrow> bool" where
  "is_SetValue (SetValue k v) = True"
| "is_SetValue _ = False"

definition answer_of ::
  "io_call list \<Rightarrow> bool \<Rightarrow> 'a \<Rightarrow> 'a settled" where
  "answer_of calls failed_here v =
     (case filter is_ConsoleError calls of
        ConsoleError m e # cs \<Rightarrow> if failed_here then Rejected e else Fulfilled v
      | _ \<Rightarrow> Fulfilled v)"

definition written_url :: "io_call list \<Rightarrow> string" where
  "written_url calls = (case filter is_SetValue calls of SetValue k v # cs \<Rightarrow> v | _ \<Rightarrow> [])"

definition env_of_log :: "string option \<Rightarrow> io_call list \<Rightarrow> collaborators" where
  "env_of_log v calls =
     \<lparr> getValue_result = (\<lambda>k. answer_of calls (filter is_generateImage calls = []) v),
       generateImage_result = (\<lambda>p. answer_of calls (filter is_SetValue calls = []) (written_url calls)),
       setValue_result = (\<lambda>k u. answer_of calls True ()) \<rparr>"

definition log_inv :: "(string \<rightharpoonup> string) \<Rightarrow> system \<Rightarrow> bool" where
  "log_inv db sys \<longleftrightarrow>
     (case phase sys of
        NotStarted \<Rightarrow> False
      | AwaitGetValue \<Rightarrow> io sys = [GetValue avatarKey] \<and> store sys = db
      | AwaitGenerateImage \<Rightarrow>
          io sys = [GetValue avatarKey, ConsoleLog noAvatarMessage, GenerateImage aiAvatarPrompt]
          \<and> store sys = db \<and> \<not> truthy_string (db avatarKey)
      | AwaitSetValue avatarUrl \<Rightarrow>
          io sys = [GetValue avatarKey, ConsoleLog noAvatarMessage, GenerateImage aiAvatarPrompt,
                    SetValue avatarKey avatarUrl]
          \<and> store sys = db \<and> \<not> truthy_string (db avatarKey)
      | Finished \<Rightarrow> is_run_of db sys (env_of_log (db avatarKey) (io sys)))"

declare log_inv_def [inv_defs]

lemmas is_run_of_defs =
  is_run_of_def compatible_def initializeApp_def try_block_def store_of_run_def
  env_of_log_def answer_of_def written_url_def

lemma is_run_of_cached:
  assumes "truthy_string (db avatarKey)" and "io sys = [GetValue avatarKey]" and "store sys = db"
  shows "is_run_of db sys (env_of_log (db avatarKey)
      [GetValue avatarKey])"
  using assms by (simp add: is_run_of_defs)

lemma is_run_of_failing_read:
  assumes "io sys = [GetValue avatarKey, ConsoleError initFailedMessage e]" and "store sys = db"
  shows "is_run_of db sys (env_of_log (db avatarKey)
      [GetValue avatarKey, ConsoleError initFailedMessage e])"
  using assms by (simp add: is_run_of_defs)

lemma is_run_of_failing_generate:
  assumes "\<not> truthy_string (db avatarKey)"
    and "io sys = [GetValue avatarKey, ConsoleLog noAvatarMessage, GenerateImage aiAvatarPrompt,
                   ConsoleError initFailedMessage e]"
    and "store sys = db"
  shows "is_run_of db sys (env_of_log (db avatarKey)
      [GetValue avatarKey, ConsoleLog noAvatarMessage, GenerateImage aiAvatarPrompt, ConsoleError initFailedMessage e])"
  using assms by (simp add: is_run_of_defs)

lemma is_run_of_written:
  assumes "\<not> truthy_string (db avatarKey)"
    and "io sys = [GetValue avatarKey, ConsoleLog noAvatarMessage, GenerateImage aiAvatarPrompt,
                   SetValue avatarKey avatarUrl]"
    and "store sys = db(avatarKey \<mapsto> avatarUrl)"
  shows "is_run_of db sys (env_of_log (db avatarKey)
      [GetValue avatarKey, ConsoleLog noAvatarMessage, GenerateImage aiAvatarPrompt, SetValue avatarKey avatarUrl])"
  using assms by (simp add: is_run_of_defs)

lemma is_run_of_failing_write:
  assumes "\<not> truthy_string (db avatarKey)"
    and "io sys = [GetValue avatarKey, ConsoleLog noAvatarMessage, GenerateImage aiAvatarPrompt,
                   SetValue avatarKey avatarUrl, ConsoleError initFailedMessage e]"
    and "store sys = db"
  shows "is_run_of db sys (env_of_log (db avatarKey)
      [GetValue avatarKey, ConsoleLog noAvatarMessage, GenerateImage aiAvatarPrompt, SetValue avatarKey avatarUrl, ConsoleError initFailedMessage e])"
  using assms by (simp add: is_run_of_defs)

lemmas is_run_of_intros =
  is_run_of_cached is_run_of_failing_read is_run_of_failing_generate is_run_of_written
  is_run_of_failing_write

lemma log_inv_boot [simp]: "log_inv db (boot c db)"
  by (simp add: log_inv_def)

lemma log_inv_Settle:
  assumes "log_inv db sys" and "step sys (Settle r) = Some sys'"
  shows "log_inv db sys'"
proof -
  from assms(2) obtain ph calls as
    where ok: "gateway_allows (store sys) r"
      and res: "init_resume (phase sys) r = Some (ph, calls, as)"
      and sys': "sys' = render (write_hooks as
        (sys\<lparr> phase := ph, io := io sys @ calls,
              store := store_after (store sys) (phase sys) r \<rparr>))"
    by (auto split: if_splits option.splits)
  show ?thesis
  proof (cases "phase sys")
    case NotStarted
    with res show ?thesis by simp
  next
    case AwaitGetValue
    with res ok assms(1) show ?thesis
      unfolding sys'
      by (auto elim!: init_resume_AwaitGetValueE intro!: is_run_of_intros
          simp: log_inv_def finally_block_def catch_block_def split: if_splits)
  next
    case AwaitGenerateImage
    with res assms(1) show ?thesis
      unfolding sys'
      by (auto elim!: init_resume_AwaitGenerateImageE intro!: is_run_of_intros
          simp: log_inv_def finally_block_def catch_block_def)
  next
    case (AwaitSetValue avatarUrl)
    with res assms(1) show ?thesis
      unfolding sys'
      by (auto elim!: init_resume_AwaitSetValueE intro!: is_run_of_intros
          simp: log_inv_def finally_block_def catch_block_def)
  next
    case Finished
    with res show ?thesis by simp
  qed
qed

lemma log_inv_step:
  assumes "log_inv db sys" and "step sys e = Some sys'"
  shows "log_inv db sys'"
proof (cases "is_Settle e")
  case True
  then obtain r where "e = Settle r" by (cases e) simp_all
  with assms show ?thesis
    by (blast intro: log_inv_Settle)
next
  case False
  with assms(2) have "phase sys' = phase sys" "store sys' = store sys" "io sys' = io sys"
    using phase_step_other [of sys e sys'] by simp_all
  with assms(1) show ?thesis
    by (simp add: log_inv_def is_run_of_def split: init_phase.splits)
qed

lemma log_inv_run:
  "log_inv db sys \<Longrightarrow> run sys es = Some sys' \<Longrightarrow> log_inv db sys'"
proof (induction es arbitrary: sys)
  case Nil
  then show ?case by simp
next
  case (Cons e es)
  then obtain t where "step sys e = Some t" and "run t es = Some sys'"
    by (auto split: option.splits)
  with Cons.prems(1) show ?case
    by (blast intro: Cons.IH log_inv_step)
qed

section \<open>Properties of the initialisation in the controller\<close>

text \<open>
  \<^bold>\<open>C6\<close> (liveness). The initialisation ends: from every reachable state,
  when the promises \<^verbatim>\<open>initializeApp\<close> waits for settle the way the
  collaborators \<open>env\<close> settle them (a successful read of the avatar returning
  the content of the store), at most three settlements bring the controller to
  a state in which the function has finished and the initialising flag is
  cleared, whether the collaborators succeed or fail.
\<close>

theorem initialisation_finishes:
  assumes "reachable_sys sys" and "compatible env (store sys)"
  shows "\<exists>sys'. run sys (settlements env 3 (phase sys)) = Some sys' \<and>
           phase sys' = Finished \<and> \<not> isAppInitializing (hooks (comp sys')) \<and>
           length (settlements env 3 (phase sys)) \<le> 3"
proof -
  from assms(1) have inv: "sys_inv sys"
    by (rule reachable_sys_inv)
  then have "remaining (phase sys) \<le> 3"
    by (simp add: sys_inv_def remaining_started)
  with inv assms(2) obtain sys'
    where r: "run sys (settlements env 3 (phase sys)) = Some sys'" and f: "phase sys' = Finished"
    using run_settlements [of sys 3 env] by blast
  from assms(1) r have "sys_inv sys'"
    by (blast intro: reachable_run reachable_sys_inv)
  with f have "\<not> isAppInitializing (hooks (comp sys'))"
    by (simp add: sys_inv_def)
  with r f show ?thesis
    by (simp add: length_settlements)
qed

theorem initialisation_finishes_witness:
  "\<exists>sys'. run (boot signed_out Map.empty)
      (settlements (answering None (Fulfilled ''data:image/png;base64,AAAA'')) 3 AwaitGetValue)
        = Some sys' \<and>
     phase sys' = Finished \<and> \<not> isAppInitializing (hooks (comp sys'))"
  using initialisation_finishes
    [of "boot signed_out Map.empty" "answering None (Fulfilled ''data:image/png;base64,AAAA'')"]
  by (simp add: compatible_def del: settlements.simps) blast

text \<open>
  A stored avatar is kept: when the store holds a
  non-empty avatar at the mount, no run calls the image generator, tries to
  write the store or changes it, and \<^verbatim>\<open>initializeApp\<close> finishes with the
  first settlement.
\<close>

theorem stored_avatar_is_kept:
  assumes "truthy_string (db avatarKey)" and "run (boot c db) es = Some sys"
  shows "store sys = db \<and> list_all quiet (io sys) \<and>
         (phase sys = AwaitGetValue \<or> phase sys = Finished)"
  using cached_inv_run [of db "boot c db" es sys] assms
  by (simp add: has_avatar_def cached_inv_def)

theorem stored_avatar_is_kept_witness:
  "store (the (run (boot signed_out [avatarKey \<mapsto> ''data:image/png;base64,AAAA''])
      [Settle (GetValueSettled (Rejected (Thrown ''offline'')))]))
     = [avatarKey \<mapsto> ''data:image/png;base64,AAAA'']"
proof -
  obtain sys where r: "run (boot signed_out [avatarKey \<mapsto> ''data:image/png;base64,AAAA''])
      [Settle (GetValueSettled (Rejected (Thrown ''offline'')))] = Some sys"
    by (simp add: step_boot_failed del: step.simps)
  have "truthy_string ([avatarKey \<mapsto> ''data:image/png;base64,AAAA''] avatarKey)"
    by simp
  from stored_avatar_is_kept [OF this r] show ?thesis
    by (simp add: r del: run.simps)
qed

text \<open>
  \<^bold>\<open>C33\<close> (roundtrip). What the initialisation writes, the next one reads:
  when a run has ended with the write of a non-empty avatar as its last call,
  the store holds that avatar, and in every run of a later mount on that store
  the image generator is not called, nothing is written and the store stays as
  it is.
\<close>

theorem generated_avatar_survives_remount:
  assumes "run (boot c db) es = Some sys" and "phase sys = Finished"
    and "last (io sys) = SetValue avatarKey avatarUrl" and "avatarUrl \<noteq> []"
    and "run (boot c' (store sys)) es' = Some sys'"
  shows "store sys avatarKey = Some avatarUrl \<and>
         list_all quiet (io sys') \<and> store sys' = store sys"
proof -
  have "written_inv sys"
    using written_inv_boot assms(1) by (rule written_inv_run)
  with assms(2,3) have st: "store sys avatarKey = Some avatarUrl"
    by (simp add: written_inv_def)
  with assms(4) have "has_avatar (store sys)"
    by (simp add: has_avatar_def)
  then have "cached_inv (store sys) sys'"
    using cached_inv_boot assms(5) by (rule cached_inv_run)
  with st show ?thesis
    by (simp add: cached_inv_def)
qed

theorem generated_avatar_survives_remount_witness:
  "\<exists>sys. run (boot signed_out Map.empty)
       [Settle (GetValueSettled (Fulfilled None)),
        Settle (GenerateImageSettled (Fulfilled ''blob:avatar'')),
        Settle (SetValueSettled (Fulfilled ()))] = Some sys \<and>
     store sys avatarKey = Some ''blob:avatar'' \<and>
     run (boot signed_in (store sys)) [Settle (GetValueSettled (Fulfilled None))] = None"
proof -
  let ?es = "[Settle (GetValueSettled (Fulfilled None)),
        Settle (GenerateImageSettled (Fulfilled ''blob:avatar'')),
        Settle (SetValueSettled (Fulfilled ()))]"
  obtain sys where sys: "run (boot signed_out Map.empty) ?es = Some sys"
    and ph: "phase sys = Finished"
    and io: "last (io sys) = SetValue avatarKey ''blob:avatar''"
    by (simp add: step_Settle finally_block_def)
  have "run (boot signed_in (store sys)) [] = Some (boot signed_in (store sys))"
    by simp
  from generated_avatar_survives_remount [OF sys ph io _ this]
  have "store sys avatarKey = Some ''blob:avatar''"
    by simp
  with sys show ?thesis
    by (auto simp del: run.simps step.simps simp add: run.simps(1) run.simps(2) [of _ "Settle r" for r] step.simps(3))
qed

text \<open>
  \<^bold>\<open>C17\<close> (refinement). The suspended function does what the function does:
  when \<^verbatim>\<open>initializeApp\<close> has finished in a run of the controller, whatever
  happened in between, the calls it has made are the calls of the function run
  as a whole against the collaborators whose answers the log shows, these have
  read the store as it was at the mount, and the store is what that run leaves.
\<close>

theorem finished_initialisation_is_a_run:
  assumes "run (boot c db) es = Some sys" and "phase sys = Finished"
  shows "compatible (env_of_log (db avatarKey) (io sys)) db \<and>
         io sys = fst (initializeApp (env_of_log (db avatarKey) (io sys))) \<and>
         store sys = store_of_run (env_of_log (db avatarKey) (io sys)) db"
proof -
  have "log_inv db sys"
    using log_inv_boot assms(1) by (rule log_inv_run)
  with assms(2) show ?thesis
    by (simp add: log_inv_def is_run_of_def)
qed

theorem finished_initialisation_is_a_run_witness:
  "\<exists>sys. run (boot signed_out Map.empty)
       [Settle (GetValueSettled (Fulfilled None)), Provide signed_in,
        Settle (GenerateImageSettled (Fulfilled ''blob:avatar'')),
        Settle (SetValueSettled (Fulfilled ()))] = Some sys \<and>
     io sys = fst (initializeApp (env_of_log None (io sys))) \<and>
     store sys = store_of_run (env_of_log None (io sys)) Map.empty"
proof -
  let ?es = "[Settle (GetValueSettled (Fulfilled None)), Provide signed_in,
        Settle (GenerateImageSettled (Fulfilled ''blob:avatar'')),
        Settle (SetValueSettled (Fulfilled ()))]"
  obtain sys where sys: "run (boot signed_out Map.empty) ?es = Some sys"
    and ph: "phase sys = Finished"
    by (simp add: finally_block_def)
  from finished_initialisation_is_a_run [OF sys ph] sys show ?thesis
    by (simp del: run.simps)
qed

end
