(* ===== verification/Lifecycle.thy ===== *)
theory Lifecycle
  imports Startup
begin

text \<open>
  Unmounting and mounting again. The effect that starts \<^verbatim>\<open>initializeApp\<close>
  (\<^verbatim>\<open>src/App.tsx\<close>, lines 26-44) returns no cleanup function and the function
  tests no flag: when the component is unmounted while a promise is pending,
  the function goes on when the promise settles, calls the generator and
  writes the store. What it cannot do any more is write a hook: React ignores
  \<^verbatim>\<open>setIsAppInitializing\<close> for a component that is gone, and a component
  mounted later has hooks of its own. Every mount starts a run of
  \<^verbatim>\<open>initializeApp\<close> of its own, so several runs can be pending over the one
  store.

  \<^item> \<open>world\<close>: the component (the one that is mounted, or the last one when
    none is), whether one is mounted, the phases of the runs of
    \<^verbatim>\<open>initializeApp\<close> that earlier mounts have left behind, and the number of
    mounts so far. The store and the log are those of the component;
  \<^item> \<open>levent\<close>: an event of the mounted controller (\<open>Live\<close>), \<open>Unmount\<close>,
    \<open>Mount\<close> with the values of the providers, and the settlement of a promise
    that a run left behind waits for (\<open>Orphan\<close>);
  \<^item> \<open>lstep\<close>, \<open>lrun\<close>: steps and runs; \<open>remount\<close> is a later mount and
    \<open>orphan_step\<close> the resumption of a run left behind, which writes the log
    and the store but no hook;
  \<^item> \<open>pending_runs\<close>: the phases of all runs of a world, \<open>resumed\<close> the
    run an event resumes, with the case analysis \<open>pending_runs_lstep\<close> of
    what a step does to the runs, the log and the store; \<open>budget\<close> and
    \<open>work_left\<close> are the measures that bound the calls of the generator and
    the settlements;
  \<^item> \<open>race\<close>, \<open>remounted\<close>: sample runs.

  The lemmas show that the runs left behind do not disturb the mounted
  component (\<open>world_inv\<close>), that the generator is called at most once and
  at most three promises settle for every mount, that no run is blocked and
  all runs can be brought to their end (\<open>pending_can_settle\<close>,
  \<open>quiescence_reachable\<close>), that a stored avatar is kept by all runs
  (\<open>lcached\<close>), and that a world without an unmount is the controller
  (\<open>lrun_Live\<close>).
\<close>

section \<open>Worlds and events\<close>

record world =
  current :: system
  live :: bool
  orphans :: "init_phase list"
  mounts :: nat

datatype levent =
    Live event
  | Unmount
  | Mount contexts
  | Orphan nat resumption

definition lboot :: "contexts \<Rightarrow> (string \<rightharpoonup> string) \<Rightarrow> world" where
  "lboot c db = \<lparr> current = boot c db, live = True, orphans = [], mounts = 1 \<rparr>"

definition remount :: "contexts \<Rightarrow> system \<Rightarrow> system" where
  "remount c s = (boot c (store s))\<lparr> io := io s @ io (boot c (store s)) \<rparr>"

definition orphan_step :: "nat \<Rightarrow> resumption \<Rightarrow> init_step \<Rightarrow> world \<Rightarrow> world" where
  "orphan_step i r st w =
     (case st of
        (ph, calls, as) \<Rightarrow>
          w\<lparr> orphans := (orphans w)[i := ph],
             current := (current w)
               \<lparr> io := io (current w) @ calls,
                  store := store_after (store (current w)) (orphans w ! i) r \<rparr> \<rparr>)"

fun lstep :: "world \<Rightarrow> levent \<Rightarrow> world option" where
  "lstep w (Live e) =
     (if live w then map_option (\<lambda>s. w\<lparr>current := s\<rparr>) (step (current w) e) else None)"
| "lstep w Unmount =
     (if live w then Some (w\<lparr> live := False, orphans := phase (current w) # orphans w \<rparr>)
      else None)"
| "lstep w (Mount c) =
     (if live w then None
      else Some (w\<lparr> current := remount c (current w), live := True, mounts := Suc (mounts w) \<rparr>))"
| "lstep w (Orphan i r) =
     (if i < length (orphans w) \<and> gateway_allows (store (current w)) r
      then map_option (\<lambda>st. orphan_step i r st w) (init_resume (orphans w ! i) r)
      else None)"

fun lrun :: "world \<Rightarrow> levent list \<Rightarrow> world option" where
  "lrun w [] = Some w"
| "lrun w (e # es) = (case lstep w e of None \<Rightarrow> None | Some w' \<Rightarrow> lrun w' es)"

section \<open>Invariants carry over to runs\<close>

lemma lrun_induct:
  assumes "lrun w es = Some w'" and "P w"
    and "\<And>w e w'. P w \<Longrightarrow> lstep w e = Some w' \<Longrightarrow> P w'"
  shows "P w'"
  using assms(1,2)
proof (induction es arbitrary: w)
  case Nil
  then show ?case by simp
next
  case (Cons e es)
  then obtain t where t: "lstep w e = Some t" and r: "lrun t es = Some w'"
    by (auto split: option.splits)
  from Cons.prems(2) t have "P t"
    by (rule assms(3))
  with r show ?case
    by (rule Cons.IH)
qed

lemma lstep_cases:
  assumes "lstep w e = Some w'"
  obtains (Live) ev s where "e = Live ev" and "live w" and "step (current w) ev = Some s"
      and "w' = w\<lparr>current := s\<rparr>"
    | (Unmount) "e = Unmount" and "live w"
      and "w' = w\<lparr> live := False, orphans := phase (current w) # orphans w \<rparr>"
    | (Mount) c where "e = Mount c" and "\<not> live w"
      and "w' = w\<lparr> current := remount c (current w), live := True, mounts := Suc (mounts w) \<rparr>"
    | (Orphan) i r ph calls as where "e = Orphan i r" and "i < length (orphans w)"
      and "gateway_allows (store (current w)) r"
      and "init_resume (orphans w ! i) r = Some (ph, calls, as)"
      and "w' = w\<lparr> orphans := (orphans w)[i := ph],
             current := (current w)
               \<lparr> io := io (current w) @ calls,
                  store := store_after (store (current w)) (orphans w ! i) r \<rparr> \<rparr>"
  using assms
  by (cases e) (auto simp: orphan_step_def split: if_splits)

lemma lboot_simps [simp]:
  "current (lboot c db) = boot c db"
  "live (lboot c db)"
  "orphans (lboot c db) = []"
  "mounts (lboot c db) = 1"
  by (simp_all add: lboot_def)

lemma remount_simps [simp]:
  "ctx (remount c s) = c"
  "comp (remount c s) = mount_component c"
  "phase (remount c s) = AwaitGetValue"
  "store (remount c s) = store s"
  "io (remount c s) = io s @ [GetValue avatarKey]"
  by (simp_all add: remount_def)

section \<open>The mounted component is not disturbed\<close>

lemma sys_inv_fields:
  "ctx s' = ctx s \<Longrightarrow> comp s' = comp s \<Longrightarrow> phase s' = phase s \<Longrightarrow> sys_inv s' = sys_inv s"
  by (simp add: sys_inv_def)

lemma sys_inv_remount [simp]: "sys_inv (remount c s)"
  using sys_inv_boot [of c "store s"] by (simp add: sys_inv_def)

lemma sys_inv_lstep:
  assumes "sys_inv (current w)" and "lstep w e = Some w'"
  shows "sys_inv (current w')"
  using assms(2)
proof (cases rule: lstep_cases)
  case (Live ev s)
  with assms(1) show ?thesis
    by (auto intro: sys_inv_step)
next
  case (Orphan i r ph calls as)
  with assms(1) show ?thesis
    by (simp add: sys_inv_def)
qed (use assms(1) in simp_all)

section \<open>The runs that are pending\<close>

text \<open>
  The runs of \<^verbatim>\<open>initializeApp\<close> of a world: the one of the mounted
  component, if there is one, and those left behind. A step leaves them as
  they are, starts one (a mount), or resumes one of them.
\<close>

definition pending_runs :: "world \<Rightarrow> init_phase list" where
  "pending_runs w = (if live w then [phase (current w)] else []) @ orphans w"

fun settles :: "levent \<Rightarrow> bool" where
  "settles (Live e) = is_Settle e"
| "settles (Orphan i r) = True"
| "settles _ = False"

text \<open>The run an event resumes, as its phase, and the settled promise.\<close>

fun resumed :: "world \<Rightarrow> levent \<Rightarrow> (init_phase \<times> resumption) option" where
  "resumed w (Live (Settle r)) = Some (phase (current w), r)"
| "resumed w (Orphan i r) = Some (orphans w ! i, r)"
| "resumed w _ = None"

lemma resumed_None: "\<not> settles e \<Longrightarrow> resumed w e = None"
  by (cases "(w, e)" rule: resumed.cases) simp_all

lemma pending_runs_lboot [simp]: "pending_runs (lboot c db) = [AwaitGetValue]"
  by (simp add: pending_runs_def)

lemma pending_runs_lstep:
  assumes "lstep w e = Some w'"
  obtains (Same) "pending_runs w' = pending_runs w" and "io (current w') = io (current w)"
      and "mounts w' = mounts w" and "\<not> settles e"
      and "store (current w') = store (current w)"
    | (Start) "pending_runs w' = AwaitGetValue # pending_runs w"
      and "io (current w') = io (current w) @ [GetValue avatarKey]"
      and "mounts w' = Suc (mounts w)" and "\<not> settles e"
      and "store (current w') = store (current w)"
    | (Resume) i r ph calls as where "i < length (pending_runs w)"
      and "init_resume (pending_runs w ! i) r = Some (ph, calls, as)"
      and "pending_runs w' = (pending_runs w)[i := ph]"
      and "io (current w') = io (current w) @ calls"
      and "mounts w' = mounts w" and "settles e"
      and "resumed w e = Some (pending_runs w ! i, r)"
      and "gateway_allows (store (current w)) r"
      and "store (current w') = store_after (store (current w)) (pending_runs w ! i) r"
  using assms
proof (cases rule: lstep_cases)
  case (Live ev s)
  show ?thesis
  proof (cases "is_Settle ev")
    case False
    with Live have "pending_runs w' = pending_runs w" and "io (current w') = io (current w)"
      and "store (current w') = store (current w)"
      using phase_step_other [of "current w" ev s] by (simp_all add: pending_runs_def)
    with Live False show ?thesis
      by (intro Same) simp_all
  next
    case True
    then obtain r where "ev = Settle r" by (cases ev) simp_all
    with Live(3) have "step (current w) (Settle r) = Some s"
      by (simp del: step.simps)
    then obtain ph calls as
      where "init_resume (phase (current w)) r = Some (ph, calls, as)"
        and "phase s = ph" and "io s = io (current w) @ calls"
        and "gateway_allows (store (current w)) r"
        and "store s = store_after (store (current w)) (phase (current w)) r"
      by (rule step_SettleE)
    with Live True \<open>ev = Settle r\<close> show ?thesis
      by (intro Resume [of 0 r ph calls as]) (simp_all add: pending_runs_def)
  qed
next
  case Unmount
  then show ?thesis
    by (intro Same) (simp_all add: pending_runs_def)
next
  case (Mount c)
  then show ?thesis
    by (intro Start) (simp_all add: pending_runs_def)
next
  case (Orphan i r ph calls as)
  then show ?thesis
    by (intro Resume [of "if live w then Suc i else i" r ph calls as])
      (simp_all add: pending_runs_def)
qed

section \<open>Calls of the generator\<close>

text \<open>
  A run of \<^verbatim>\<open>initializeApp\<close> can call the generator only while it waits for
  the store to answer the read. The calls made so far and the runs that may
  still make one are together at most the mounts.
\<close>

definition gen_calls :: "io_call list \<Rightarrow> nat" where
  "gen_calls calls = length (filter is_generateImage calls)"

fun may_generate :: "init_phase \<Rightarrow> nat" where
  "may_generate AwaitGetValue = 1"
| "may_generate _ = 0"

definition budget :: "world \<Rightarrow> nat" where
  "budget w = gen_calls (io (current w)) + sum_list (map may_generate (pending_runs w))"

lemma gen_calls_simps [simp]:
  "gen_calls [] = 0"
  "gen_calls (xs @ ys) = gen_calls xs + gen_calls ys"
  "gen_calls (c # cs) = (if is_generateImage c then 1 else 0) + gen_calls cs"
  by (simp_all add: gen_calls_def)

lemma init_resume_budget:
  "init_resume ph r = Some (ph', calls, as) \<Longrightarrow> gen_calls calls + may_generate ph' \<le> may_generate ph"
  by (induction ph r rule: init_resume.induct)
    (auto simp: finally_block_def catch_block_def split: if_splits)

lemma budget_lboot [simp]: "budget (lboot c db) = mounts (lboot c db)"
  by (simp add: budget_def)

lemma budget_lstep:
  assumes "lstep w e = Some w'"
  shows "budget w' + mounts w \<le> budget w + mounts w'"
  using assms
proof (cases rule: pending_runs_lstep)
  case (Resume i r ph calls as)
  then show ?thesis
    using init_resume_budget [of "pending_runs w ! i" r ph calls as]
      sum_list_map_update [of i "pending_runs w" may_generate ph]
    by (simp add: budget_def)
qed (simp_all add: budget_def)

lemma budget_lrun:
  assumes "lrun w es = Some w'" and "budget w \<le> mounts w"
  shows "budget w' \<le> mounts w'"
  using assms
proof (rule lrun_induct)
  fix w e w' assume "budget w \<le> mounts w" "lstep w e = Some w'"
  then show "budget w' \<le> mounts w'"
    using budget_lstep [of w e w'] by simp
qed

section \<open>Settlements\<close>

text \<open>
  Every run of \<^verbatim>\<open>initializeApp\<close> waits for three promises at most, so the
  settlements of a world are bounded by its mounts.
\<close>

definition work_left :: "world \<Rightarrow> nat" where
  "work_left w = sum_list (map remaining (pending_runs w))"

lemma work_left_lstep:
  assumes "lstep w e = Some w'"
  shows "(if settles e then 1 else 0) + work_left w' + 3 * mounts w \<le> work_left w + 3 * mounts w'"
  using assms
proof (cases rule: pending_runs_lstep)
  case (Resume i r ph calls as)
  then show ?thesis
    using init_resume_remaining [of "pending_runs w ! i" r ph calls as]
      sum_list_map_update [of i "pending_runs w" remaining ph]
    by (simp add: work_left_def)
qed (simp_all add: work_left_def)

lemma work_left_lrun:
  "lrun w es = Some w' \<Longrightarrow>
     length (filter settles es) + work_left w' + 3 * mounts w \<le> work_left w + 3 * mounts w'"
proof (induction es arbitrary: w)
  case Nil
  then show ?case by simp
next
  case (Cons e es)
  then obtain t where t: "lstep w e = Some t" and r: "lrun t es = Some w'"
    by (auto split: option.splits)
  from work_left_lstep [OF t] Cons.IH [OF r] show ?case
    by (simp split: if_splits)
qed

text \<open>No run is blocked: the promise it waits for can settle.\<close>

lemma can_resume:
  assumes "awaiting ph"
  obtains r st where "init_resume ph r = Some st" and "gateway_allows db r"
proof -
  obtain r st where r: "env_answer (answering (db avatarKey) (Fulfilled [])) ph = Some r"
    and st: "init_resume ph r = Some st"
    using env_answer_accepted [OF assms] by blast
  from r have "gateway_allows db r"
    by (cases ph) auto
  with st show ?thesis
    by (rule that)
qed

lemma orphan_can_settle:
  assumes "i < length (orphans w)" and "awaiting (orphans w ! i)"
  shows "\<exists>r w'. lstep w (Orphan i r) = Some w'"
proof -
  obtain r st where "init_resume (orphans w ! i) r = Some st"
    and "gateway_allows (store (current w)) r"
    using assms(2) by (rule can_resume)
  with assms(1) have "lstep w (Orphan i r) = Some (orphan_step i r st w)"
    by simp
  then show ?thesis
    by blast
qed

lemma live_can_settle:
  assumes "live w" and "awaiting (phase (current w))"
  shows "\<exists>r w'. lstep w (Live (Settle r)) = Some w'"
proof -
  obtain r st where "init_resume (phase (current w)) r = Some st"
    and "gateway_allows (store (current w)) r"
    using assms(2) by (rule can_resume)
  then have "\<exists>s. step (current w) (Settle r) = Some s"
    by (cases st) simp
  with assms(1) show ?thesis
    by (auto simp del: step.simps)
qed

lemma pending_can_settle:
  assumes "i < length (pending_runs w)" and "awaiting (pending_runs w ! i)"
  shows "\<exists>e w'. settles e \<and> lstep w e = Some w'"
proof (cases "live w \<and> i = 0")
  case True
  with assms(2) have "\<exists>r w'. lstep w (Live (Settle r)) = Some w'"
    by (intro live_can_settle) (simp_all add: pending_runs_def)
  then obtain r w' where "lstep w (Live (Settle r)) = Some w'"
    by blast
  moreover have "settles (Live (Settle r))"
    by simp
  ultimately show ?thesis
    by blast
next
  case False
  define j where "j = (if live w then i - 1 else i)"
  with False assms have "j < length (orphans w)" and "awaiting (orphans w ! j)"
    by (auto simp: pending_runs_def nth_Cons' split: if_splits)
  then obtain r w' where "lstep w (Orphan j r) = Some w'"
    using orphan_can_settle by blast
  moreover have "settles (Orphan j r)"
    by simp
  ultimately show ?thesis
    by blast
qed

section \<open>A stored avatar and several runs\<close>

definition reads_only :: "init_phase \<Rightarrow> bool" where
  "reads_only ph \<longleftrightarrow> ph = AwaitGetValue \<or> ph = Finished"

definition lcached :: "(string \<rightharpoonup> string) \<Rightarrow> world \<Rightarrow> bool" where
  "lcached db w \<longleftrightarrow>
     store (current w) = db \<and> list_all quiet (io (current w)) \<and>
     reads_only (phase (current w)) \<and> list_all reads_only (orphans w)"

lemma init_resume_cached:
  assumes "has_avatar db" and "gateway_allows db r" and "reads_only ph"
    and "init_resume ph r = Some (ph', calls, as)"
  shows "ph' = Finished \<and> list_all quiet calls \<and> store_after db ph r = db"
proof -
  from assms(3,4) have ph: "ph = AwaitGetValue"
    by (auto simp: reads_only_def)
  show ?thesis
  proof (cases r)
    case (GetValueSettled x)
    with assms(1,2,4) ph show ?thesis
      by (cases x)
        (auto simp: has_avatar_def finally_block_def catch_block_def split: if_splits)
  qed (use assms(4) ph in simp_all)
qed

lemma lcached_lboot [simp]: "lcached db (lboot c db)"
  by (simp add: lcached_def lboot_def reads_only_def)

lemma lcached_lstep:
  assumes "has_avatar db" and "lcached db w" and "lstep w e = Some w'"
  shows "lcached db w'"
  using assms(3)
proof (cases rule: lstep_cases)
  case (Live ev s)
  from assms(2) have "cached_inv db (current w)"
    by (simp add: lcached_def cached_inv_def reads_only_def)
  with assms(1) have "cached_inv db s"
    using Live(3) by (rule cached_inv_step)
  with assms(2) Live show ?thesis
    by (simp add: lcached_def cached_inv_def reads_only_def)
next
  case (Orphan i r ph calls as)
  with assms(2) have "gateway_allows db r" and "reads_only (orphans w ! i)"
    by (simp_all add: lcached_def list_all_length)
  with assms(1) have "ph = Finished \<and> list_all quiet calls \<and>
      store_after db (orphans w ! i) r = db"
    using Orphan(4) by (rule init_resume_cached)
  with assms(2) Orphan show ?thesis
    by (auto simp: lcached_def reads_only_def list_all_iff dest: set_update_subset_insert [THEN subsetD])
qed (use assms(2) in \<open>simp_all add: lcached_def reads_only_def\<close>)

lemma lcached_lrun:
  assumes "has_avatar db" and "lrun w es = Some w'" and "lcached db w"
  shows "lcached db w'"
  using assms(2,3)
proof (rule lrun_induct)
  fix w e w' assume "lcached db w" "lstep w e = Some w'"
  with assms(1) show "lcached db w'"
    by (rule lcached_lstep)
qed

section \<open>One mount\<close>

text \<open>As long as the component is not unmounted, a world is its controller.\<close>

lemma lrun_Live:
  "live w \<Longrightarrow> lrun w (map Live es) = map_option (\<lambda>s. w\<lparr>current := s\<rparr>) (run (current w) es)"
proof (induction es arbitrary: w)
  case Nil
  then show ?case by simp
next
  case (Cons e es)
  show ?case
  proof (cases "step (current w) e")
    case None
    with Cons.prems show ?thesis by simp
  next
    case (Some s)
    with Cons.prems Cons.IH [of "w\<lparr>current := s\<rparr>"] show ?thesis
      by (simp del: step.simps)
  qed
qed

section \<open>The invariant of the worlds\<close>

definition world_inv :: "world \<Rightarrow> bool" where
  "world_inv w \<longleftrightarrow>
     sys_inv (current w) \<and>
     length (pending_runs w) = mounts w \<and>
     list_all (\<lambda>ph. ph \<noteq> NotStarted) (orphans w)"

lemma world_inv_lboot [simp]: "world_inv (lboot c db)"
  by (simp add: world_inv_def pending_runs_def lboot_def)

lemma world_inv_lstep:
  assumes "world_inv w" and "lstep w e = Some w'"
  shows "world_inv w'"
proof -
  from assms have inv: "sys_inv (current w')"
    by (auto simp: world_inv_def intro: sys_inv_lstep)
  from assms(2) have "length (pending_runs w') = mounts w' \<and>
      list_all (\<lambda>ph. ph \<noteq> NotStarted) (orphans w')"
  proof (cases rule: lstep_cases)
    case (Orphan i r ph calls as)
    with assms(1) show ?thesis
      using init_resume_started [OF Orphan(4)]
      by (auto simp: world_inv_def pending_runs_def list_all_iff
          dest: set_update_subset_insert [THEN subsetD])
  qed (use assms(1) in \<open>auto simp: world_inv_def pending_runs_def sys_inv_def\<close>)
  with inv show ?thesis
    by (simp add: world_inv_def)
qed

lemma world_inv_lrun: "lrun w es = Some w' \<Longrightarrow> world_inv w \<Longrightarrow> world_inv w'"
  by (erule lrun_induct) (auto intro: world_inv_lstep)

section \<open>Progress\<close>

text \<open>
  From every world that satisfies the invariant the runs of \<^verbatim>\<open>initializeApp\<close>
  can all be brought to their end, by as many settlements as \<open>work_left\<close>
  counts at most.
\<close>

lemma work_left_pending:
  assumes "world_inv w" and "0 < work_left w"
  obtains i where "i < length (pending_runs w)" and "awaiting (pending_runs w ! i)"
proof -
  from assms(2) obtain ph where ph: "ph \<in> set (pending_runs w)" and r: "remaining ph \<noteq> 0"
    unfolding work_left_def by (auto dest: sum_list_pos_elem)
  from assms(1) ph have "ph \<noteq> NotStarted"
    by (auto simp: world_inv_def sys_inv_def pending_runs_def list_all_iff split: if_splits)
  with r have "awaiting ph"
    by (cases ph) simp_all
  with ph show ?thesis
    by (auto simp: in_set_conv_nth intro: that)
qed

lemma settles_keeps_mounts: "lstep w e = Some w' \<Longrightarrow> settles e \<Longrightarrow> mounts w' = mounts w"
  by (erule pending_runs_lstep) simp_all

lemma quiescence_reachable:
  assumes "world_inv w" and "work_left w = n"
  shows "\<exists>es w'. list_all settles es \<and> length es \<le> n \<and> lrun w es = Some w' \<and> work_left w' = 0"
  using assms
proof (induction n arbitrary: w rule: less_induct)
  case (less n)
  show ?case
  proof (cases "n = 0")
    case True
    with less.prems(2) have "list_all settles [] \<and> length ([] :: levent list) \<le> n \<and>
        lrun w [] = Some w \<and> work_left w = 0"
      by simp
    then show ?thesis
      by blast
  next
    case False
    with less.prems obtain i where "i < length (pending_runs w)"
      and "awaiting (pending_runs w ! i)"
      by (auto elim: work_left_pending)
    then obtain e t where e: "settles e" and t: "lstep w e = Some t"
      using pending_can_settle by blast
    from work_left_lstep [OF t] e settles_keeps_mounts [OF t e] less.prems(2)
    have lt: "work_left t < n"
      by simp
    moreover have "world_inv t"
      using less.prems(1) t by (rule world_inv_lstep)
    ultimately obtain es w' where es: "list_all settles es" "length es \<le> work_left t"
      "lrun t es = Some w'" "work_left w' = 0"
      using less.IH [of "work_left t" t] by blast
    with e t lt have "list_all settles (e # es) \<and> length (e # es) \<le> n \<and>
        lrun w (e # es) = Some w' \<and> work_left w' = 0"
      by simp
    then show ?thesis
      by blast
  qed
qed

lemma finished_ready:
  assumes "world_inv w" and "work_left w = 0" and "live w"
  shows "\<not> isAppInitializing (hooks (comp (current w)))"
proof -
  from assms(2,3) have "remaining (phase (current w)) = 0"
    by (simp add: work_left_def pending_runs_def)
  with assms(1) have "phase (current w) = Finished"
    by (cases "phase (current w)") (simp_all add: world_inv_def sys_inv_def)
  with assms(1) show ?thesis
    by (simp add: world_inv_def sys_inv_def)
qed

section \<open>A sample: unmounted while the generator works\<close>

definition race :: "contexts \<Rightarrow> contexts \<Rightarrow> string \<Rightarrow> string \<Rightarrow> levent list" where
  "race c c' a b =
     [Live (Settle (GetValueSettled (Fulfilled None))),
      Unmount,
      Mount c',
      Live (Settle (GetValueSettled (Fulfilled None))),
      Orphan 0 (GenerateImageSettled (Fulfilled a)),
      Orphan 0 (SetValueSettled (Fulfilled ())),
      Live (Settle (GenerateImageSettled (Fulfilled b))),
      Live (Settle (SetValueSettled (Fulfilled ())))]"

lemma lrun_race:
  obtains w where "lrun (lboot c Map.empty) (race c c' a b) = Some w"
    and "io (current w) =
      [GetValue avatarKey, ConsoleLog noAvatarMessage, GenerateImage aiAvatarPrompt,
       GetValue avatarKey, ConsoleLog noAvatarMessage, GenerateImage aiAvatarPrompt,
       SetValue avatarKey a, SetValue avatarKey b]"
    and "store (current w) avatarKey = Some b"
    and "mounts w = 2" and "orphans w = [Finished]" and "phase (current w) = Finished"
  by (simp add: race_def lboot_def remount_def orphan_step_def finally_block_def)

definition stored :: "string \<rightharpoonup> string" where
  "stored = [avatarKey \<mapsto> ''blob:stored'']"

definition remounted :: "levent list" where
  "remounted =
     [Unmount,
      Mount signed_in,
      Orphan 0 (GetValueSettled (Fulfilled (Some ''blob:stored''))),
      Live (Settle (GetValueSettled (Fulfilled (Some ''blob:stored''))))]"

lemma lrun_remounted:
  obtains w where "lrun (lboot signed_out stored) remounted = Some w"
    and "io (current w) = [GetValue avatarKey, GetValue avatarKey]"
    and "mounts w = 2" and "orphans w = [Finished]" and "phase (current w) = Finished"
  by (simp add: remounted_def stored_def lboot_def remount_def orphan_step_def finally_block_def)

section \<open>Properties of unmounting and mounting again\<close>

text \<open>
  \<^bold>\<open>C15\<close> (invariant). The runs of \<^verbatim>\<open>initializeApp\<close> that unmounted components
  have left behind do not disturb the component that is mounted: in every world
  reached from the first mount, by events of the controller, unmounts, mounts
  and settlements of promises of old runs in any order, the component is at
  rest, has a page to go back to, and shows the loading indicator exactly while
  its own run is pending; and every mount has exactly one run, which has
  started.
\<close>

theorem remounts_keep_invariants:
  assumes "lrun (lboot c db) es = Some w"
  shows "sys_inv (current w) \<and>
         length (orphans w) + (if live w then 1 else 0) = mounts w \<and>
         list_all (\<lambda>ph. ph \<noteq> NotStarted) (orphans w)"
  using world_inv_lrun [OF assms world_inv_lboot]
  by (auto simp: world_inv_def pending_runs_def split: if_splits)

theorem remounts_keep_invariants_witness:
  "\<exists>w. lrun (lboot signed_out Map.empty) (race signed_out signed_in ''blob:a'' ''blob:b'') = Some w \<and>
     sys_inv (current w) \<and> length (orphans w) + (if live w then 1 else 0) = mounts w"
proof -
  obtain w
    where w: "lrun (lboot signed_out Map.empty) (race signed_out signed_in ''blob:a'' ''blob:b'') = Some w"
    by (rule lrun_race)
  from remounts_keep_invariants [OF w] w show ?thesis
    by blast
qed

text \<open>
  \<^bold>\<open>C12\<close> (bounds). The generator is called at most once for every mount,
  however the runs of \<^verbatim>\<open>initializeApp\<close> of the mounts are interleaved.
\<close>

theorem generator_calls_bounded_by_mounts:
  assumes "lrun (lboot c db) es = Some w"
  shows "gen_calls (io (current w)) \<le> mounts w"
proof -
  from assms have "budget w \<le> mounts w"
    by (rule budget_lrun) simp
  then show ?thesis
    by (simp add: budget_def)
qed

theorem generator_calls_bounded_by_mounts_witness:
  "\<exists>w. lrun (lboot signed_out Map.empty) (race signed_out signed_in ''blob:a'' ''blob:b'') = Some w \<and>
     gen_calls (io (current w)) \<le> mounts w \<and> mounts w = 2"
proof -
  obtain w
    where w: "lrun (lboot signed_out Map.empty) (race signed_out signed_in ''blob:a'' ''blob:b'') = Some w"
      and "mounts w = 2"
    by (rule lrun_race)
  with generator_calls_bounded_by_mounts [OF w] show ?thesis
    by blast
qed

text \<open>
  \<^bold>\<open>C30\<close> (termination). The initialisations end: in every world reached
  from the first mount, the promises that have settled and the promises the
  pending runs of \<^verbatim>\<open>initializeApp\<close> may still wait for are together at most
  three for every mount. So after the last mount only finitely many
  settlements can follow, whatever the order.
\<close>

theorem settlements_bounded_by_mounts:
  assumes "lrun (lboot c db) es = Some w"
  shows "length (filter settles es) + work_left w \<le> 3 * mounts w"
  using work_left_lrun [OF assms] by (simp add: work_left_def)

theorem settlements_bounded_by_mounts_witness:
  "\<exists>w. lrun (lboot signed_out Map.empty) (race signed_out signed_out ''blob:a'' ''blob:b'') = Some w \<and>
     length (filter settles (race signed_out signed_out ''blob:a'' ''blob:b'')) = 3 * mounts w \<and>
     work_left w = 0"
proof -
  obtain w
    where w: "lrun (lboot signed_out Map.empty) (race signed_out signed_out ''blob:a'' ''blob:b'') = Some w"
      and "mounts w = 2"
    by (rule lrun_race)
  with settlements_bounded_by_mounts [OF w] show ?thesis
    by (simp add: race_def)
qed

text \<open>
  \<^bold>\<open>C29\<close> (liveness). No run of \<^verbatim>\<open>initializeApp\<close> blocks another. From every
  world reached from the first mount, whatever has been unmounted and
  mounted and however far the runs have come, the promises can settle so that
  every run ends: there are settlements, at most as many as the runs still
  wait for, after which no run is pending and the component that is mounted
  has cleared its initialising flag.
\<close>

theorem all_runs_can_finish:
  assumes "lrun (lboot c db) es = Some w"
  shows "\<exists>es' w'. list_all settles es' \<and> length es' \<le> work_left w \<and>
           lrun w es' = Some w' \<and> work_left w' = 0 \<and>
           (live w' \<longrightarrow> \<not> isAppInitializing (hooks (comp (current w'))))"
proof -
  have inv: "world_inv w"
    using assms world_inv_lboot by (rule world_inv_lrun)
  then obtain es' w' where es': "list_all settles es'" "length es' \<le> work_left w"
    and r: "lrun w es' = Some w'" and z: "work_left w' = 0"
    using quiescence_reachable [of w "work_left w"] by blast
  from r inv have "world_inv w'"
    by (rule world_inv_lrun)
  with es' r z show ?thesis
    using finished_ready by blast
qed

theorem all_runs_can_finish_witness:
  "\<exists>w es' w'. lrun (lboot signed_out Map.empty)
        [Live (Settle (GetValueSettled (Fulfilled None))), Unmount, Mount signed_in] = Some w \<and>
     work_left w = 5 \<and> length es' \<le> 5 \<and> lrun w es' = Some w' \<and> work_left w' = 0"
proof -
  obtain w where w: "lrun (lboot signed_out Map.empty)
        [Live (Settle (GetValueSettled (Fulfilled None))), Unmount, Mount signed_in] = Some w"
    and n: "work_left w = 5"
    by (simp add: lboot_def remount_def work_left_def pending_runs_def)
  from all_runs_can_finish [OF w] n w show ?thesis
    by auto
qed

text \<open>
  \<^bold>\<open>C28\<close> (safety). A stored avatar is kept by all mounts: when the store
  holds a non-empty avatar at the first mount, then whatever is unmounted and
  mounted and in whatever order the promises settle, the generator is never
  called, no run tries to write the store, and the store is never changed.
\<close>

theorem stored_avatar_kept_across_mounts:
  assumes "has_avatar db" and "lrun (lboot c db) es = Some w"
  shows "store (current w) = db \<and> list_all quiet (io (current w))"
  using lcached_lrun [OF assms lcached_lboot] by (simp add: lcached_def)

theorem stored_avatar_kept_across_mounts_witness:
  "has_avatar stored \<and>
   (\<exists>w. lrun (lboot signed_out stored) remounted = Some w \<and>
      store (current w) = stored \<and> list_all quiet (io (current w)))"
proof -
  have h: "has_avatar stored"
    by (simp add: has_avatar_def stored_def)
  obtain w where w: "lrun (lboot signed_out stored) remounted = Some w"
    by (rule lrun_remounted)
  from stored_avatar_kept_across_mounts [OF h w] h w show ?thesis
    by blast
qed


end
