(* ===== verification/Exchanges.thy ===== *)
theory Exchanges
  imports Lifecycle "HOL-Library.Multiset"
begin

text \<open>
  The worlds of theory \<open>Lifecycle\<close> and the collaborators of theory \<open>Gateway\<close>
  together. Every event that resumes a run of \<^verbatim>\<open>initializeApp\<close> is an
  exchange with a collaborator: the call the run waits for and the settlement
  of its promise.

  \<^item> \<open>exchange_of\<close>, \<open>exchanges\<close>: the exchanges of an event and of a run of a
    world, in the order in which the promises settle;
  \<^item> \<open>asked\<close>: the calls of the log that return a promise; \<open>waiting\<close>: the
    calls the pending runs wait for. Runs of several mounts are interleaved,
    so the two are compared as multisets.

  The lemmas show that the store of a world is the store the collaborators
  reach when they serve the exchanges of the run one after the other, that
  every call of the log has been answered once or is waited for by one run,
  and that a read returns the last acknowledged write of any run.
\<close>

section \<open>The exchanges of a run\<close>

definition exchange_of :: "world \<Rightarrow> levent \<Rightarrow> exchange list" where
  "exchange_of w e =
     (case resumed w e of
        None \<Rightarrow> []
      | Some (ph, r) \<Rightarrow> map (\<lambda>c. (c, r)) (awaited ph))"

fun exchanges :: "world \<Rightarrow> levent list \<Rightarrow> exchange list" where
  "exchanges w [] = []"
| "exchanges w (e # es) =
     exchange_of w e @ (case lstep w e of None \<Rightarrow> [] | Some w' \<Rightarrow> exchanges w' es)"

definition asked :: "world \<Rightarrow> io_call multiset" where
  "asked w = mset (filter is_async (io (current w)))"

definition waiting :: "world \<Rightarrow> io_call multiset" where
  "waiting w = (\<Sum>ph\<leftarrow>pending_runs w. mset (awaited ph))"

lemma asked_lboot [simp]: "asked (lboot c db) = {#GetValue avatarKey#}"
  by (simp add: asked_def)

lemma waiting_lboot [simp]: "waiting (lboot c db) = {#GetValue avatarKey#}"
  by (simp add: waiting_def)

section \<open>One step\<close>

definition served :: "world \<Rightarrow> exchange list \<Rightarrow> world \<Rightarrow> bool" where
  "served w xs w' \<longleftrightarrow>
     serve_run (store (current w)) xs = Some (store (current w')) \<and>
     asked w' + waiting w = asked w + mset (map fst xs) + waiting w'"

lemma served_refl [simp]: "served w [] w"
  by (simp add: served_def)

lemma served_trans: "served w xs t \<Longrightarrow> served t ys w' \<Longrightarrow> served w (xs @ ys) w'"
proof -
  assume a: "served w xs t" and b: "served t ys w'"
  have "asked w' + waiting w + waiting t = asked t + waiting w + mset (map fst ys) + waiting w'"
    using b by (simp add: served_def ac_simps)
  also have "\<dots> = asked w + mset (map fst xs) + mset (map fst ys) + waiting w' + waiting t"
    using a by (simp add: served_def ac_simps)
  finally have "asked w' + waiting w = asked w + mset (map fst (xs @ ys)) + waiting w'"
    by (simp add: ac_simps)
  with a b show ?thesis
    by (simp add: served_def serve_run_append)
qed

lemma served_lstep:
  assumes "lstep w e = Some w'"
  shows "served w (exchange_of w e) w'"
  using assms
proof (cases rule: pending_runs_lstep)
  case (Resume i r ph calls as)
  from Resume(2) obtain c where c: "awaited (pending_runs w ! i) = [c]"
    using init_resume_awaited by blast
  with Resume have x: "exchange_of w e = [(c, r)]"
    by (simp add: exchange_of_def)
  have "asked w' = asked w + mset (awaited ph)"
    using Resume(4) init_resume_issues [OF Resume(2)] by (simp add: asked_def)
  moreover have "waiting w' + {#c#} = waiting w + mset (awaited ph)"
    using sum_list_map_update [OF Resume(1), of "\<lambda>ph. mset (awaited ph)" ph] Resume(3) c
    by (simp add: waiting_def)
  ultimately have "asked w' + waiting w = asked w + {#c#} + waiting w'"
    by (simp add: ac_simps)
  with Resume c show ?thesis
    unfolding x by (simp add: served_def serve_awaited)
qed (simp_all add: served_def exchange_of_def resumed_None asked_def waiting_def)

section \<open>Runs\<close>

lemma served_lrun: "lrun w es = Some w' \<Longrightarrow> served w (exchanges w es) w'"
proof (induction es arbitrary: w)
  case Nil
  then show ?case by simp
next
  case (Cons e es)
  then obtain t where t: "lstep w e = Some t" and r: "lrun t es = Some w'"
    by (auto split: option.splits)
  from served_lstep [OF t] Cons.IH [OF r] have "served w (exchange_of w e @ exchanges t es) w'"
    by (rule served_trans)
  with t show ?case by simp
qed

text \<open>A controller that is never unmounted is served in the same way.\<close>

lemma controller_is_served:
  assumes "run (boot c db) es = Some sys"
  shows "serve_run db (exchanges (lboot c db) (map Live es)) = Some (store sys)"
  using served_lrun [of "lboot c db" "map Live es"] lrun_Live [of "lboot c db" es] assms
  by (simp add: served_def)

section \<open>A sample: the second visit\<close>

text \<open>
  The first mount finds no avatar, has one generated and stores it; the
  component is unmounted and mounted again, and the second run reads the
  store.
\<close>

definition second_visit :: "levent list" where
  "second_visit =
     [Live (Settle (GetValueSettled (Fulfilled None))),
      Live (Settle (GenerateImageSettled (Fulfilled ''blob:avatar''))),
      Live (Settle (SetValueSettled (Fulfilled ()))),
      Unmount,
      Mount signed_in,
      Live (Settle (GetValueSettled (Fulfilled (Some ''blob:avatar''))))]"

lemma lrun_second_visit:
  obtains w where "lrun (lboot signed_out Map.empty) second_visit = Some w"
    and "exchanges (lboot signed_out Map.empty) second_visit =
      [(GetValue avatarKey, GetValueSettled (Fulfilled None)),
       (GenerateImage aiAvatarPrompt, GenerateImageSettled (Fulfilled ''blob:avatar'')),
       (SetValue avatarKey ''blob:avatar'', SetValueSettled (Fulfilled ()))] @
      [(GetValue avatarKey, GetValueSettled (Fulfilled (Some ''blob:avatar'')))]"
  by (simp add: second_visit_def lboot_def remount_def exchange_of_def finally_block_def)

section \<open>Properties of the worlds and the collaborators\<close>

text \<open>
  \<^bold>\<open>C13\<close> (refinement). The worlds run against the collaborators. In every
  world reached from the first mount, the store is what the key-value store
  and the generator reach from the initial store when they serve, one after
  the other, the exchanges of the run: each the call a run of
  \<^verbatim>\<open>initializeApp\<close> waited for and the settlement that resumed it. And the
  calls of the log that return a promise are, up to their order, the calls that
  have been answered and the calls the pending runs wait for: no promise
  settles twice and no call is lost, however the runs are interleaved.
\<close>

theorem worlds_are_served:
  assumes "lrun (lboot c db) es = Some w"
  shows "serve_run db (exchanges (lboot c db) es) = Some (store (current w)) \<and>
         mset (filter is_async (io (current w))) =
           mset (map fst (exchanges (lboot c db) es)) + (\<Sum>ph\<leftarrow>pending_runs w. mset (awaited ph))"
  using served_lrun [OF assms] by (simp add: served_def asked_def waiting_def)

theorem worlds_are_served_witness:
  "\<exists>w. lrun (lboot signed_out Map.empty) second_visit = Some w \<and>
     serve_run Map.empty (exchanges (lboot signed_out Map.empty) second_visit)
       = Some (store (current w)) \<and>
     store (current w) avatarKey = Some ''blob:avatar''"
proof -
  obtain w where w: "lrun (lboot signed_out Map.empty) second_visit = Some w"
    and x: "exchanges (lboot signed_out Map.empty) second_visit =
      [(GetValue avatarKey, GetValueSettled (Fulfilled None)),
       (GenerateImage aiAvatarPrompt, GenerateImageSettled (Fulfilled ''blob:avatar'')),
       (SetValue avatarKey ''blob:avatar'', SetValueSettled (Fulfilled ()))] @
      [(GetValue avatarKey, GetValueSettled (Fulfilled (Some ''blob:avatar'')))]"
    by (rule lrun_second_visit)
  from worlds_are_served [OF w]
  have s: "serve_run Map.empty (exchanges (lboot signed_out Map.empty) second_visit)
      = Some (store (current w))"
    by simp
  then have "store (current w) = [avatarKey \<mapsto> ''blob:avatar'']"
    unfolding x by simp
  then have "store (current w) avatarKey = Some ''blob:avatar''"
    by simp
  with w s show ?thesis
    by blast
qed



end
