(* ===== verification/Spec2Isabelle.thy ===== *)
theory Spec2Isabelle
  imports Closures Runtime Exchanges
begin

text \<open>
  Verification development for the navigation and session controller of the
  Dentibuddy single-page application: \<^verbatim>\<open>src/App.tsx\<close> (the component
  \<^verbatim>\<open>AppContent\<close> and the root component \<^verbatim>\<open>App\<close>) and \<^verbatim>\<open>src/types.ts\<close> (the
  data model).

  \<^bold>\<open>The program.\<close> \<^verbatim>\<open>AppContent\<close> is a React function component. It holds
  three state hooks (\<^verbatim>\<open>currentPage\<close>, \<^verbatim>\<open>previousPage\<close>, \<^verbatim>\<open>isAppInitializing\<close>)
  and one ref (\<^verbatim>\<open>prevUserRef\<close>), reads the current user and two loading flags
  from the identity and localization providers, and does four things:

  \<^item> \<^verbatim>\<open>navigate\<close> (lines 46-52) changes the page, remembers the page one came
    from when the target is the auth page, and scrolls to the top;
  \<^item> an effect that runs once (lines 26-44) starts \<^verbatim>\<open>initializeApp\<close>, which
    reads the avatar of the assistant from the key-value store, has one
    generated and stored when there is none, logs any failure, and clears
    \<^verbatim>\<open>isAppInitializing\<close> in every case;
  \<^item> an effect on the identity (lines 54-69) goes home when a user appears on
    the auth page or disappears on a protected page, and remembers the user;
  \<^item> the render (lines 71-106) shows a loading indicator until the providers
    and the initialisation are done, then the component of the current page
    with \<^verbatim>\<open>navigate\<close> as its callback.

  \<^bold>\<open>The theories\<close>, in the order of their imports:

  \<^item> \<open>Prelude\<close>: JavaScript truthiness (\<open>truthy\<close>, \<open>truthy_string\<close>),
    preservation of a predicate by a fold (\<open>preserves\<close>), reachability in a
    transition system with its invariant rule (\<open>reachable\<close>), the string
    literals of an enumeration (\<open>of_literal\<close>, \<open>is_literal\<close>), and the
    collections \<open>cmd_defs\<close>, \<open>frame\<close>, \<open>inv_defs\<close>.
  \<^item> \<open>Types\<close>: \<^verbatim>\<open>src/types.ts\<close>. Unions of string literals are datatypes
    (\<open>Page\<close>, \<open>Language\<close>, ...), interfaces are records (\<open>User\<close>,
    \<open>ChatSession\<close>, ...), optional fields are options. The unions are
    instances of \<open>enum\<close>, and \<open>Page_literal\<close>, \<open>Province_literal\<close>, ... give
    the strings of the source.
  \<^item> \<open>AppState\<close>: the hooks as the record \<open>app_state\<close>, the values of the
    providers as \<open>contexts\<close>, the state at the mount (\<open>mount\<close>, lines 21-24),
    and the writes the code performs as the datatype \<open>action\<close>, applied in
    order by \<open>run_actions\<close>. Calls of \<^verbatim>\<open>window.scrollTo\<close> are logged in the
    field \<open>scrollCalls\<close>.
  \<^item> \<open>Navigation\<close>: \<open>navigate cur page\<close> is the list of writes of a call of
    the closure that captured \<open>cur\<close>. \<open>navigate_seq\<close> is a sequence of calls
    with a render after each, \<open>navigate_batch\<close> a sequence of calls through one
    closure. The lemmas give the page and the remembered page after any
    sequence and say when the two kinds of sequence agree.
  \<^item> \<open>Watcher\<close>: \<open>watcher prev usr cur\<close> is the body of the identity effect,
    \<open>watch\<close> its run on a state, \<open>redirects\<close> the condition under which it
    navigates. The lemmas give the state after a run on every branch.
  \<^item> \<open>Render\<close>: \<open>renderPage\<close>, the gate \<open>loading\<close>, \<open>AppContent\<close> and \<open>App\<close>
    as functions to elements that carry their callbacks; \<open>dispatch\<close> is a call
    of a callback by the rendered page.
  \<^item> \<open>Effects\<close>: when React runs the identity effect (\<open>flush_effects\<close>, with
    the dependency array of line 69) and the loop of renders (\<open>settle\<close>). The
    lemmas show that the loop ends after at most two renders and that it
    amounts to one run of the effect body.
  \<^item> \<open>InitApp\<close>: \<open>initializeApp\<close> as a function from what the collaborators
    return (\<open>collaborators\<close>) to the calls made and the hooks written, with
    \<^verbatim>\<open>try\<close>, \<^verbatim>\<open>catch\<close> and \<^verbatim>\<open>finally\<close> as a sum type; and the same function as
    a state machine suspended at each \<^verbatim>\<open>await\<close> (\<open>init_phase\<close>,
    \<open>init_resume\<close>). The lemmas give the run on every branch, errors included,
    and show that the state machine computes the whole run.
  \<^item> \<open>Gateway\<close>: the collaborators of \<^verbatim>\<open>initializeApp\<close>, from their
    contracts: the key-value store (\<open>gateway_step\<close>), the store and the
    image generator together (\<open>serve\<close>, \<open>serve_run\<close>), and the call each
    phase of \<^verbatim>\<open>initializeApp\<close> waits for (\<open>awaited\<close>). The lemmas give the
    content of the store after any sequence of calls.
  \<^item> \<open>Controller\<close>: the whole component as a machine (\<open>system\<close>, \<open>event\<close>,
    \<open>step\<close>, \<open>run\<close>): the providers publish values, the rendered page calls a
    callback, a promise settles. After each event the component renders until
    it has settled. The lemmas are the invariant of the reachable states
    (\<open>sys_inv\<close>, \<open>sys_idle\<close>), safety of the redirects, and that a promise
    settles in the machine exactly as the collaborators of theory \<open>Gateway\<close>
    can answer the awaited call (\<open>step_Settle_iff_served\<close>).
  \<^item> \<open>Startup\<close>: the initialisation inside the controller. The lemmas show
    that it ends when the promises settle (\<open>settlements\<close>), that a stored
    avatar is kept (\<open>cached_inv\<close>) and a written one is stored
    (\<open>written_inv\<close>), and that the log of a finished initialisation is a run
    of the function of theory \<open>InitApp\<close> (\<open>log_inv\<close>, \<open>env_of_log\<close>).
  \<^item> \<open>Lifecycle\<close>: unmounting and mounting again (\<open>world\<close>, \<open>levent\<close>,
    \<open>lstep\<close>). The effect of lines 26-44 has no cleanup, so the run of
    \<^verbatim>\<open>initializeApp\<close> of an unmounted component goes on over the same store
    (\<open>orphan_step\<close>) while a later mount starts a run of its own
    (\<open>remount\<close>). The lemmas show that the runs left behind do not disturb
    the mounted component, bound the calls of the generator and the
    settlements by the mounts, and show that all runs can end.
  \<^item> \<open>Exchanges\<close>: the worlds and the collaborators together. A run of a
    world is projected to the calls and settlements the collaborators see
    (\<open>exchanges\<close>); the lemmas show that serving them in order gives the
    store of the world, that every logged call is answered once or still
    awaited, and that a read returns the last acknowledged write.
  \<^item> \<open>Closures\<close>: the controller together with the closures its renders have
    handed out (\<open>machine\<close>), and handlers of the pages that call callbacks
    of one closure, of the render on the screen or of an earlier one, any
    number of times (\<open>xevent\<close>, \<open>xstep\<close>). The lemmas reduce a handler to a
    batch of \<^verbatim>\<open>navigate\<close> calls and show that the invariant of the
    controller survives every handler.
  \<^item> \<open>Runtime\<close>: the page hooks as the strings they are when the program
    runs (\<open>js_pages\<close>, \<open>navigate_js\<close>, \<open>watcher_js\<close>, \<open>renderPage_js\<close> with
    the \<^verbatim>\<open>default\<close> branch of lines 89-90), the typing predicate \<open>typed_js\<close>
    and the erasure \<open>erase\<close> from the typed model. The lemmas are
    preservation of the typing and agreement with the typed model.
  \<^item> this theory: the specification of the controller as a transition table
    without React (\<open>spec_state\<close>, \<open>spec_step\<close>), the abstraction \<open>abs_state\<close>,
    the theorems that every run of the controller is a run of the table and
    that the controller offers every step of the table, the steps of the
    table that stand for a handler (\<open>abs_batch\<close>), and the events of a world
    since its last mount as a run of the table (\<open>since_mount\<close>).

  \<^bold>\<open>How the model follows the code.\<close> A closure is a function of what it
  captured: \<open>navigate\<close> takes the \<open>currentPage\<close> of the render that created
  it, \<open>watcher\<close> takes the remembered user, the user and the page of its
  render. The setters of React do not change what the running closure sees, so
  the code of a handler is a list of writes, applied when it returns; the last
  write to a hook wins. Identifiers keep the names of the source; a field name
  shared by two interfaces carries the interface as a suffix (\<open>id_User\<close>), and
  the sets of values are datatypes of the same constructors.

  \<^bold>\<open>Bounds.\<close> \<open>settle\<close> is a total function: its measure is whether a
  redirect is pending, and a redirect leads to the home page, from which there
  is none; hence two renders at most. \<open>drive\<close> and \<open>settlements\<close> take fuel;
  \<open>remaining\<close> bounds the resumptions left in a started phase by three (the
  three \<^verbatim>\<open>await\<close>s), each resumption decreases it, and fuel three is shown
  to be enough from every such phase. That \<^verbatim>\<open>initializeApp\<close> returns is proved from
  the assumption that each awaited promise settles; without a settlement the
  machine stays where it is, which is a theorem as well. In a world the same
  measure, summed over the pending runs (\<open>work_left\<close>), bounds the
  settlements by three for every mount, and \<open>budget\<close> bounds the calls of
  the generator by one for every mount; both bounds are reached (\<open>race\<close>).
  That the runs of a world end is proved as the existence of the settlements
  that end them, at most \<open>work_left\<close> many (\<open>quiescence_reachable\<close>); that
  the promises do settle is up to the collaborators.

  \<^bold>\<open>Not modelled.\<close> The providers, the page components, the key-value store
  and the image generator are not part of the sources (\<^verbatim>\<open>src/App.tsx\<close> only
  imports them). The store and the generator are modelled from their contracts
  (theory \<open>Gateway\<close>): a read that succeeds returns what is stored, a write
  that succeeds stores its value, a call that fails changes nothing, and the
  generator may return any string or fail. Of the providers and the pages only
  their interface to the controller is modelled, and they are left free: any
  values published in any order, any accepted call at any time. How a user
  signs in, how translations are loaded, what the theme provider does and what
  a page displays are not in the sources and not modelled. Users are compared by value, React
  compares by reference: the effect may run more often in the program, which
  changes nothing (\<open>watch_synced\<close>). The markup and the class names have
  no counterpart. The typed theories have no \<^verbatim>\<open>default\<close> branch of the
  \<^verbatim>\<open>switch\<close>, which is unreachable for a closed type; theory \<open>Runtime\<close>
  has it. The specification has no step for a handler that calls a callback
  while the loading indicator is shown (a callback kept from an earlier
  render, when a provider is loading again): such handlers are in the machine
  of theory \<open>Closures\<close> and keep its invariant, they are compared with the
  specification when the controller is ready, and
  \<open>handlers_navigate_while_loading\<close> says what they do otherwise. Theory
  \<open>Lifecycle\<close> unmounts and mounts the component as a whole; the handlers
  of theory \<open>Closures\<close> are not combined with it, and the second run of
  the effects that React's \<^verbatim>\<open>StrictMode\<close> adds during development (on the
  same hooks, without a new mount) is not modelled: \<^verbatim>\<open>App\<close> does not use
  \<^verbatim>\<open>StrictMode\<close>, and whether \<^verbatim>\<open>index.tsx\<close> does is outside the sources.
  All of the code of \<^verbatim>\<open>src/App.tsx\<close> and \<^verbatim>\<open>src/types.ts\<close> except the
  \<^verbatim>\<open>import\<close> and \<^verbatim>\<open>export\<close> lines has a definition here.
\<close>

section \<open>The specification of the controller\<close>

text \<open>
  What the controller promises, without React: a transition table over the
  page, the page before authentication, the initialising flag, whether a user
  is present (the controller looks at nothing else of a user) and whether a
  provider is still loading. The identity changes, a page asks for another
  page or the auth page asks to go back, and the initialisation ends.
\<close>

record spec_state =
  sp_page :: Page
  sp_previous :: Page
  sp_initializing :: bool
  sp_present :: bool
  sp_providers_loading :: bool

datatype spec_event =
    Identity bool bool
  | Navigate Page
  | Back
  | InitDone
  | Internal

definition spec_init :: "bool \<Rightarrow> bool \<Rightarrow> spec_state" where
  "spec_init present ld =
     \<lparr> sp_page = home, sp_previous = home, sp_initializing = True,
       sp_present = present, sp_providers_loading = ld \<rparr>"

definition spec_ready :: "spec_state \<Rightarrow> bool" where
  "spec_ready t \<longleftrightarrow> \<not> sp_initializing t \<and> \<not> sp_providers_loading t"

definition spec_navigate :: "Page \<Rightarrow> spec_state \<Rightarrow> spec_state" where
  "spec_navigate p t =
     t\<lparr> sp_previous := (if p = auth then sp_page t else sp_previous t), sp_page := p \<rparr>"

definition spec_redirect :: "bool \<Rightarrow> spec_state \<Rightarrow> bool" where
  "spec_redirect present t \<longleftrightarrow>
     (\<not> sp_present t \<and> present \<and> sp_page t = auth) \<or>
     (sp_present t \<and> \<not> present \<and> sp_page t \<in> {profile, tracker})"

fun spec_step :: "spec_state \<Rightarrow> spec_event \<Rightarrow> spec_state option" where
  "spec_step t (Identity present ld) =
     Some ((if spec_redirect present t then spec_navigate home t else t)
       \<lparr> sp_present := present, sp_providers_loading := ld \<rparr>)"
| "spec_step t (Navigate p) =
     (if spec_ready t \<and> sp_page t \<noteq> auth then Some (spec_navigate p t) else None)"
| "spec_step t Back =
     (if spec_ready t \<and> sp_page t = auth then Some (spec_navigate (sp_previous t) t) else None)"
| "spec_step t InitDone =
     (if sp_initializing t then Some (t\<lparr> sp_initializing := False \<rparr>) else None)"
| "spec_step t Internal = Some t"

fun spec_run :: "spec_state \<Rightarrow> spec_event list \<Rightarrow> spec_state option" where
  "spec_run t [] = Some t"
| "spec_run t (a # as) = (case spec_step t a of None \<Rightarrow> None | Some t' \<Rightarrow> spec_run t' as)"

section \<open>The controller implements it\<close>

definition abs_state :: "system \<Rightarrow> spec_state" where
  "abs_state sys =
     \<lparr> sp_page = page sys,
       sp_previous = previousPage (hooks (comp sys)),
       sp_initializing = isAppInitializing (hooks (comp sys)),
       sp_present = signedIn sys,
       sp_providers_loading = (isAuthLoading (ctx sys) \<or> isTranslationsLoading (ctx sys)) \<rparr>"

fun abs_event :: "system \<Rightarrow> event \<Rightarrow> spec_event" where
  "abs_event sys (Provide c) =
     Identity (truthy (currentUser c)) (isAuthLoading c \<or> isTranslationsLoading c)"
| "abs_event sys (Call (OnNavigate p)) = Navigate p"
| "abs_event sys (Call OnNavigateBack) = Back"
| "abs_event sys (Settle r) =
     (if map_option fst (init_resume (phase sys) r) = Some Finished then InitDone else Internal)"

fun abs_events :: "system \<Rightarrow> event list \<Rightarrow> spec_event list" where
  "abs_events sys [] = []"
| "abs_events sys (e # es) =
     abs_event sys e # (case step sys e of None \<Rightarrow> [] | Some sys' \<Rightarrow> abs_events sys' es)"

lemma abs_state_boot:
  "abs_state (boot c db) =
     spec_init (truthy (currentUser c)) (isAuthLoading c \<or> isTranslationsLoading c)"
  by (simp add: abs_state_def spec_init_def)

lemma refines_Provide:
  assumes "sys_inv sys" and "step sys (Provide c) = Some sys'"
  shows "spec_step (abs_state sys) (abs_event sys (Provide c)) = Some (abs_state sys')"
proof -
  from assms(1) have rest: "at_rest (ctx sys) (comp sys)"
    by (simp add: sys_inv_def)
  then have "redirects (prevUserRef (hooks (comp sys))) (currentUser c) (page sys)
      \<longleftrightarrow> spec_redirect (truthy (currentUser c)) (abs_state sys)"
    by (simp add: redirects_def spec_redirect_def abs_state_def at_rest_def truthy_iff)
  with assms(2) show ?thesis
    unfolding step_Provide [OF rest]
    by (auto simp: abs_state_def spec_navigate_def)
qed

lemma refines_Call:
  assumes "sys_inv sys" and "step sys (Call ev) = Some sys'"
  shows "spec_step (abs_state sys) (abs_event sys (Call ev)) = Some (abs_state sys')"
proof -
  from assms(1) have rest: "at_rest (ctx sys) (comp sys)"
    by (simp add: sys_inv_def)
  from assms(2) obtain as where as: "dispatch (App (ctx sys) (hooks (comp sys))) ev = Some as"
    by (auto split: option.splits)
  from assms(2) have st: "sys' = sys\<lparr> comp := \<lparr> hooks = run_actions (hooks (comp sys)) as,
      watcherDeps = Some (currentUser (ctx sys),
        currentPage (run_actions (hooks (comp sys)) as)) \<rparr> \<rparr>"
    unfolding step_Call [OF rest as] by simp
  show ?thesis
  proof (cases ev)
    case (OnNavigate p)
    with as have "\<not> loading (ctx sys) (hooks (comp sys))" and "page sys \<noteq> auth"
      and "as = navigate (page sys) p"
      by (auto simp: App_def dispatch_OnNavigate split: if_splits)
    then show ?thesis
      unfolding st OnNavigate
      by (auto simp: abs_state_def spec_navigate_def spec_ready_def loading_def)
  next
    case OnNavigateBack
    with as have "\<not> loading (ctx sys) (hooks (comp sys))" and "page sys = auth"
      and "as = navigate (page sys) (previousPage (hooks (comp sys)))"
      by (auto simp: App_def dispatch_OnNavigateBack split: if_splits)
    with assms(1) show ?thesis
      unfolding st OnNavigateBack
      by (auto simp: abs_state_def spec_navigate_def spec_ready_def loading_def
          sys_inv_def back_target_ok_def)
  qed
qed

lemma refines_Settle:
  assumes "sys_inv sys" and "step sys (Settle r) = Some sys'"
  shows "spec_step (abs_state sys) (abs_event sys (Settle r)) = Some (abs_state sys')"
proof -
  from assms(1) have rest: "at_rest (ctx sys) (comp sys)"
    by (simp add: sys_inv_def)
  from assms(2) obtain ph calls as
    where ok: "gateway_allows (store sys) r"
      and res: "init_resume (phase sys) r = Some (ph, calls, as)"
    by (auto split: if_splits option.splits)
  have "phase sys \<noteq> Finished"
    using res init_resume_Finished [of r] by auto
  with assms(1) have "isAppInitializing (hooks (comp sys))"
    by (simp add: sys_inv_def)
  with assms(2) res show ?thesis
    unfolding step_Settle [OF rest ok res]
    by (auto simp: abs_state_def)
qed

lemma refines_step:
  "sys_inv sys \<Longrightarrow> step sys e = Some sys' \<Longrightarrow>
     spec_step (abs_state sys) (abs_event sys e) = Some (abs_state sys')"
  by (cases e) (simp_all only: refines_Provide refines_Call refines_Settle)

lemma refines_run:
  "sys_inv sys \<Longrightarrow> run sys es = Some sys' \<Longrightarrow>
     spec_run (abs_state sys) (abs_events sys es) = Some (abs_state sys')"
proof (induction es arbitrary: sys)
  case Nil
  then show ?case by simp
next
  case (Cons e es)
  then obtain t where t: "step sys e = Some t" and r: "run t es = Some sys'"
    by (auto split: option.splits)
  from Cons.prems(1) t have "sys_inv t"
    by (rule sys_inv_step)
  then have "spec_run (abs_state t) (abs_events t es) = Some (abs_state sys')"
    using r by (rule Cons.IH)
  with t refines_step [OF Cons.prems(1) t] show ?case by simp
qed

section \<open>The controller offers what the specification allows\<close>

text \<open>
  For every event of the table that is enabled there is an event of the
  controller that stands for it: context values with the presence and the flag
  asked for, the callback of the rendered page, or the failure of the pending
  promise, which ends the initialisation from every phase.
\<close>

definition publish :: "bool \<Rightarrow> bool \<Rightarrow> contexts" where
  "publish present ld =
     \<lparr> currentUser = (if present then Some alice else None),
       isAuthLoading = ld, isTranslationsLoading = False \<rparr>"

fun fail_pending :: "init_phase \<Rightarrow> resumption" where
  "fail_pending AwaitGenerateImage = GenerateImageSettled (Rejected (Thrown []))"
| "fail_pending (AwaitSetValue avatarUrl) = SetValueSettled (Rejected (Thrown []))"
| "fail_pending _ = GetValueSettled (Rejected (Thrown []))"

fun implement :: "system \<Rightarrow> spec_event \<Rightarrow> event" where
  "implement sys (Identity present ld) = Provide (publish present ld)"
| "implement sys (Navigate p) = Call (OnNavigate p)"
| "implement sys Back = Call OnNavigateBack"
| "implement sys InitDone = Settle (fail_pending (phase sys))"
| "implement sys Internal = Provide (ctx sys)"

lemma init_resume_fail_pending:
  "awaiting ph \<Longrightarrow>
     init_resume ph (fail_pending ph) = Some (catch_block (Thrown [])) \<and>
     gateway_allows db (fail_pending ph)"
  by (cases ph) simp_all

lemma implement_enabled:
  assumes "sys_inv sys" and "spec_step (abs_state sys) a = Some t" and "a \<noteq> Internal"
  shows "\<exists>sys'. step sys (implement sys a) = Some sys' \<and> abs_event sys (implement sys a) = a"
proof (cases a)
  case (Identity present ld)
  then show ?thesis
    by (simp add: publish_def)
next
  case (Navigate p)
  with assms(2) show ?thesis
    by (simp add: abs_state_def spec_ready_def App_def dispatch_OnNavigate loading_def
        split: if_splits)
next
  case Back
  with assms(2) show ?thesis
    by (simp add: abs_state_def spec_ready_def App_def dispatch_OnNavigateBack loading_def
        split: if_splits)
next
  case InitDone
  with assms(1,2) have "awaiting (phase sys)"
    by (auto simp: abs_state_def sys_inv_def awaiting_def split: if_splits)
  from init_resume_fail_pending [OF this, of "store sys"] InitDone show ?thesis
    by (simp add: catch_block_def finally_block_def)
next
  case Internal
  with assms(3) show ?thesis by simp
qed

section \<open>Handlers against the specification\<close>

text \<open>
  A handler that calls callbacks of one closure, of the render on the screen or
  of an earlier one, is not a step of the table, but what it does to a
  controller that is ready is what at most five steps of the table do:
  leave the auth page, go to the page the closure has captured, ask for the auth
  page from there if the handler did, and go on to the page asked for last.
\<close>

definition leave_auth :: "spec_state \<Rightarrow> spec_event list" where
  "leave_auth t = (if sp_page t = auth then [Back] else [])"

definition abs_batch :: "spec_state \<Rightarrow> Page \<Rightarrow> Page list \<Rightarrow> spec_event list" where
  "abs_batch t c ps =
     (if ps = [] then []
      else leave_auth t @
        (if auth \<in> set ps
         then [Navigate c, Navigate auth] @
              (if last ps = auth then [] else [Back, Navigate (last ps)])
         else [Navigate (last ps)]))"

lemma spec_run_append:
  "spec_run t (as @ bs) = (case spec_run t as of None \<Rightarrow> None | Some t' \<Rightarrow> spec_run t' bs)"
  by (induction as arbitrary: t) (simp_all split: option.splits)

lemma length_abs_batch: "length (abs_batch t c ps) \<le> 5"
  by (simp add: abs_batch_def leave_auth_def)

lemma spec_run_leave_auth:
  assumes "spec_ready t" and "sp_previous t \<noteq> auth"
  shows "spec_run t (leave_auth t) =
    Some (t\<lparr> sp_page := (if sp_page t = auth then sp_previous t else sp_page t) \<rparr>)"
  using assms by (simp add: leave_auth_def spec_navigate_def)

lemma spec_run_abs_batch:
  assumes "spec_ready t" and "sp_previous t \<noteq> auth" and "auth \<in> set ps \<longrightarrow> c \<noteq> auth"
  shows "spec_run t (abs_batch t c ps) =
    Some (t\<lparr> sp_page := last (sp_page t # ps),
             sp_previous := (if auth \<in> set ps then c else sp_previous t) \<rparr>)"
proof (cases "ps = []")
  case True
  then show ?thesis
    by (simp add: abs_batch_def)
next
  case False
  let ?t = "t\<lparr> sp_page := (if sp_page t = auth then sp_previous t else sp_page t) \<rparr>"
  have t: "spec_ready ?t" "sp_page ?t \<noteq> auth"
    using assms(1,2) by (simp_all add: spec_ready_def)
  from False have "last ps = auth \<longrightarrow> auth \<in> set ps"
    by (auto dest: last_in_set)
  with False t assms(3) show ?thesis
    unfolding abs_batch_def
    by (auto simp: spec_run_append spec_run_leave_auth [OF assms(1,2)] spec_navigate_def
        spec_ready_def)
qed

lemma abs_state_Handler:
  assumes "closures_ok m" and "xstep m (Handler cl evs) = Some m'"
  obtains ps where "targets cl evs = Some ps" and "auth \<in> set ps \<longrightarrow> fst cl \<noteq> auth"
    and "abs_state (base m') = (abs_state (base m))
      \<lparr> sp_page := last (page (base m) # ps),
        sp_previous := (if auth \<in> set ps then fst cl else previousPage (hooks (comp (base m)))) \<rparr>"
proof -
  obtain ps where ps: "targets cl evs = Some ps"
    and h: "hooks (comp (base m')) =
      run_actions (hooks (comp (base m))) (navigate_batch (fst cl) ps)"
    and c: "ctx (base m') = ctx (base m)" and ok: "auth \<in> set ps \<longrightarrow> fst cl \<noteq> auth"
    using assms by (rule xstep_Handler_hooks)
  have "abs_state (base m') = (abs_state (base m))
      \<lparr> sp_page := last (page (base m) # ps),
        sp_previous := (if auth \<in> set ps then fst cl else previousPage (hooks (comp (base m)))) \<rparr>"
    by (simp add: abs_state_def h c currentPage_navigate_batch previousPage_navigate_batch)
  with ps ok show ?thesis
    by (rule that)
qed

section \<open>The specification and mounting again\<close>

text \<open>
  The navigation state of the specification is created at a mount and destroyed
  at the unmount. The events of a world since its last mount, as events of the
  specification, and the values of the providers at that mount:
\<close>

definition spec_mount :: "contexts \<Rightarrow> spec_state" where
  "spec_mount c = spec_init (truthy (currentUser c)) (isAuthLoading c \<or> isTranslationsLoading c)"

fun abs_levent ::
  "world \<Rightarrow> levent \<Rightarrow> contexts \<times> spec_event list \<Rightarrow> contexts \<times> spec_event list" where
  "abs_levent w (Live e) (c, tr) = (c, tr @ [abs_event (current w) e])"
| "abs_levent w (Mount c') (c, tr) = (c', [])"
| "abs_levent w Unmount (c, tr) = (c, tr)"
| "abs_levent w (Orphan i r) (c, tr) = (c, tr)"

fun since_mount ::
  "world \<Rightarrow> levent list \<Rightarrow> contexts \<times> spec_event list \<Rightarrow> contexts \<times> spec_event list" where
  "since_mount w [] acc = acc"
| "since_mount w (e # es) acc =
     (case lstep w e of None \<Rightarrow> acc | Some w' \<Rightarrow> since_mount w' es (abs_levent w e acc))"

definition mount_refines :: "world \<Rightarrow> contexts \<times> spec_event list \<Rightarrow> bool" where
  "mount_refines w acc \<longleftrightarrow>
     spec_run (spec_mount (fst acc)) (snd acc) = Some (abs_state (current w))"

lemma abs_state_fields: "ctx s' = ctx s \<Longrightarrow> comp s' = comp s \<Longrightarrow> abs_state s' = abs_state s"
  by (simp add: abs_state_def)

lemma abs_state_remount: "abs_state (remount c s) = spec_mount c"
  using abs_state_fields [of "remount c s" "boot c (store s)"]
  by (simp add: abs_state_boot spec_mount_def)

lemma mount_refines_lboot [simp]: "mount_refines (lboot c db) (c, [])"
  by (simp add: mount_refines_def lboot_def abs_state_boot spec_mount_def)

lemma mount_refines_lstep:
  assumes "sys_inv (current w)" and "mount_refines w acc" and "lstep w e = Some w'"
  shows "mount_refines w' (abs_levent w e acc)"
proof -
  obtain c tr where acc: "acc = (c, tr)"
    by (cases acc)
  from assms(3) show ?thesis
  proof (cases rule: lstep_cases)
    case (Live ev s)
    with assms(1,2) acc show ?thesis
      using refines_step [of "current w" ev s]
      by (simp add: mount_refines_def spec_run_append)
  next
    case (Mount c')
    with acc show ?thesis
      by (simp add: mount_refines_def abs_state_remount)
  next
    case (Orphan i r ph calls as)
    with assms(2) acc show ?thesis
      using abs_state_fields [of "current w'" "current w"] by (simp add: mount_refines_def)
  qed (use assms(2) acc in \<open>simp add: mount_refines_def\<close>)
qed

lemma mount_refines_lrun:
  assumes "lrun w es = Some w'" and "sys_inv (current w)" and "mount_refines w acc"
  shows "mount_refines w' (since_mount w es acc)"
  using assms
proof (induction es arbitrary: w acc)
  case Nil
  then show ?case by simp
next
  case (Cons e es)
  then obtain t where t: "lstep w e = Some t" and r: "lrun t es = Some w'"
    by (auto split: option.splits)
  from Cons.prems(2) t have "sys_inv (current t)"
    by (rule sys_inv_lstep)
  moreover from Cons.prems(2,3) t have "mount_refines t (abs_levent w e acc)"
    by (rule mount_refines_lstep)
  ultimately have "mount_refines w' (since_mount t es (abs_levent w e acc))"
    using r by (intro Cons.IH)
  with t show ?case by simp
qed

section \<open>Properties of the whole controller\<close>

text \<open>
  \<^bold>\<open>C1\<close> (refinement). The component refines the specification: every run
  of the controller from its mount, with its renders, effects, dependency
  arrays, remembered user and suspended initialisation, is a run of the
  transition table from the initial state of the specification, event by event,
  and ends in the state of the table.
\<close>

theorem controller_refines_specification:
  assumes "run (boot c db) es = Some sys"
  shows "spec_run (spec_init (truthy (currentUser c)) (isAuthLoading c \<or> isTranslationsLoading c))
           (abs_events (boot c db) es) = Some (abs_state sys)"
  using refines_run [OF sys_inv_boot assms] by (simp add: abs_state_boot)

theorem controller_refines_specification_witness:
  "spec_run (spec_init False False) [InitDone, Navigate chat, Navigate auth]
     = Some (abs_state (the (run (boot signed_out Map.empty)
         [Settle (GetValueSettled (Rejected (Thrown ''offline''))),
          Call (OnNavigate chat), Call (OnNavigate auth)])))"
proof -
  let ?es = "[Settle (GetValueSettled (Rejected (Thrown ''offline''))),
          Call (OnNavigate chat), Call (OnNavigate auth)]"
  obtain sys where r: "run (boot signed_out Map.empty) ?es = Some sys"
    by (simp add: step_boot_failed step_ready_OnNavigate del: step.simps)
  have ev: "abs_events (boot signed_out Map.empty) ?es = [InitDone, Navigate chat, Navigate auth]"
    by (simp add: step_boot_failed step_ready_OnNavigate catch_block_def finally_block_def
        del: step.simps)
  show ?thesis
    using controller_refines_specification [OF r] unfolding ev
    by (simp add: r del: run.simps spec_run.simps)
qed

text \<open>
  \<^bold>\<open>C9\<close> (refinement). The controller offers every step of the
  specification: in a reachable state, when the transition table allows an
  event (the identity changes, a page asks for a page, the auth page asks to go
  back, the initialisation ends), the controller has an event that stands for
  it, can take it, and ends in the state of the table.
\<close>

theorem specification_steps_are_offered:
  assumes "reachable_sys sys" and "spec_step (abs_state sys) a = Some t" and "a \<noteq> Internal"
  shows "\<exists>sys'. step sys (implement sys a) = Some sys' \<and>
           abs_event sys (implement sys a) = a \<and> abs_state sys' = t"
proof -
  from assms(1) have inv: "sys_inv sys"
    by (rule reachable_sys_inv)
  then obtain sys' where st: "step sys (implement sys a) = Some sys'"
    and ev: "abs_event sys (implement sys a) = a"
    using implement_enabled [OF inv assms(2,3)] by blast
  from refines_step [OF inv st] ev assms(2) have "abs_state sys' = t"
    by simp
  with st ev show ?thesis by blast
qed

theorem specification_steps_are_offered_witness:
  "\<exists>sys'. step (boot signed_out Map.empty) (Settle (GetValueSettled (Rejected (Thrown []))))
       = Some sys' \<and>
     abs_state sys' = (spec_init False False)\<lparr> sp_initializing := False \<rparr>"
  using specification_steps_are_offered
    [of "boot signed_out Map.empty" InitDone "(spec_init False False)\<lparr> sp_initializing := False \<rparr>"]
  by (simp add: abs_state_boot spec_init_def del: step.simps)

text \<open>
  \<^bold>\<open>C32\<close> (safety). Navigation is not gated by readiness. While the loading
  indicator is shown no page is on the screen and the transition table allows
  neither a navigation nor going back; but a callback that an earlier render
  has handed out still navigates when it is called: the current page changes
  behind the loading indicator, which stays.
\<close>

theorem handlers_navigate_while_loading:
  assumes "xrun (xboot c db) xs = Some m"
    and "loading (ctx (base m)) (hooks (comp (base m)))"
    and "xstep m (Handler cl evs) = Some m'"
  shows "\<exists>ps. targets cl evs = Some ps \<and>
           page (base m') = last (page (base m) # ps) \<and>
           loading (ctx (base m')) (hooks (comp (base m'))) \<and>
           spec_step (abs_state (base m)) (Navigate p) = None \<and>
           spec_step (abs_state (base m)) Back = None"
proof -
  have "closures_ok m"
    using closures_ok_xboot assms(1) by (rule closures_ok_xrun)
  then obtain ps where ps: "targets cl evs = Some ps"
    and m': "abs_state (base m') = (abs_state (base m))
      \<lparr> sp_page := last (page (base m) # ps),
        sp_previous := (if auth \<in> set ps then fst cl else previousPage (hooks (comp (base m)))) \<rparr>"
    using assms(3) by (rule abs_state_Handler)
  from assms(2) have "\<not> spec_ready (abs_state (base m))"
    by (auto simp: spec_ready_def abs_state_def loading_def)
  moreover from this m' have "\<not> spec_ready (abs_state (base m'))"
    by (simp add: spec_ready_def)
  then have "loading (ctx (base m')) (hooks (comp (base m')))"
    by (auto simp: spec_ready_def abs_state_def loading_def)
  moreover from m' have "page (base m') = last (page (base m) # ps)"
    by (simp add: abs_state_def)
  ultimately show ?thesis
    using ps by simp
qed

theorem handlers_navigate_while_loading_witness:
  "\<exists>m m'. xrun (xboot signed_out Map.empty) (butlast sample_loading) = Some m \<and>
     xstep m (last sample_loading) = Some m' \<and>
     page (base m) = home \<and> page (base m') = chat \<and>
     spec_step (abs_state (base m)) (Navigate chat) = None"
proof -
  obtain m m' where m: "xrun (xboot signed_out Map.empty) (butlast sample_loading) = Some m"
    and m': "xstep m (last sample_loading) = Some m'"
    and pg: "page (base m) = home" and ld: "loading (ctx (base m)) (hooks (comp (base m)))"
    by (rule xrun_sample_loading)
  from m' have h: "xstep m (Handler (home, home) [OnNavigate chat]) = Some m'"
    by (simp add: sample_loading_def)
  from handlers_navigate_while_loading [OF m ld h, of chat] pg
  have "page (base m') = chat \<and> spec_step (abs_state (base m)) (Navigate chat) = None"
    by auto
  with m m' pg show ?thesis
    by blast
qed

text \<open>
  \<^bold>\<open>C11\<close> (refinement). Every mount refines the specification afresh. In
  every world reached from the first mount, whatever was unmounted and mounted
  and whichever runs of \<^verbatim>\<open>initializeApp\<close> of earlier mounts went on in
  between, the events of the controller since the last mount are a run of the
  transition table from the initial state of the specification for the
  providers of that mount, and it ends in the state of the component.
\<close>

theorem remounts_refine_specification:
  assumes "lrun (lboot c db) es = Some w"
  shows "spec_run (spec_mount (fst (since_mount (lboot c db) es (c, []))))
           (snd (since_mount (lboot c db) es (c, []))) = Some (abs_state (current w))"
  using mount_refines_lrun [OF assms _ mount_refines_lboot]
  by (simp add: mount_refines_def lboot_def)

theorem remounts_refine_specification_witness:
  "spec_run (spec_mount signed_in) [InitDone]
     = Some (abs_state (current (the (lrun (lboot signed_out Map.empty)
         [Live (Settle (GetValueSettled (Fulfilled None))), Unmount, Mount signed_in,
          Orphan 0 (GenerateImageSettled (Rejected (Thrown ''offline''))),
          Live (Settle (GetValueSettled (Rejected (Thrown ''offline''))))]))))"
proof -
  let ?es = "[Live (Settle (GetValueSettled (Fulfilled None))), Unmount, Mount signed_in,
          Orphan 0 (GenerateImageSettled (Rejected (Thrown ''offline''))),
          Live (Settle (GetValueSettled (Rejected (Thrown ''offline''))))]"
  obtain w where r: "lrun (lboot signed_out Map.empty) ?es = Some w"
    by (simp add: lboot_def remount_def orphan_step_def catch_block_def finally_block_def)
  have ev: "since_mount (lboot signed_out Map.empty) ?es (signed_out, [])
      = (signed_in, [InitDone])"
    by (simp add: lboot_def remount_def orphan_step_def catch_block_def finally_block_def)
  show ?thesis
    using remounts_refine_specification [OF r] unfolding ev
    by (simp add: r del: lrun.simps spec_run.simps)
qed

text \<open>
  \<^bold>\<open>C16\<close> (refinement). Late and repeated calls stay within the
  specification. In every run with handlers, when the controller is ready and a
  handler calls callbacks of a closure that was handed out, the state it
  leaves is the state the transition table reaches from the same state in at
  most five steps.
\<close>

theorem handlers_refine_specification:
  assumes "xrun (xboot c db) xs = Some m"
    and "\<not> loading (ctx (base m)) (hooks (comp (base m)))"
    and "xstep m (Handler cl evs) = Some m'"
  shows "\<exists>ps. targets cl evs = Some ps \<and>
           spec_run (abs_state (base m)) (abs_batch (abs_state (base m)) (fst cl) ps)
             = Some (abs_state (base m')) \<and>
           length (abs_batch (abs_state (base m)) (fst cl) ps) \<le> 5"
proof -
  have ok: "closures_ok m"
    using closures_ok_xboot assms(1) by (rule closures_ok_xrun)
  then obtain ps where ps: "targets cl evs = Some ps" and a: "auth \<in> set ps \<longrightarrow> fst cl \<noteq> auth"
    and m': "abs_state (base m') = (abs_state (base m))
      \<lparr> sp_page := last (page (base m) # ps),
        sp_previous := (if auth \<in> set ps then fst cl else previousPage (hooks (comp (base m)))) \<rparr>"
    using assms(3) by (rule abs_state_Handler)
  from ok assms(2) have "spec_ready (abs_state (base m))"
    and "sp_previous (abs_state (base m)) \<noteq> auth"
    by (simp_all add: spec_ready_def abs_state_def loading_def closures_ok_def sys_inv_def
        back_target_ok_def)
  then have "spec_run (abs_state (base m)) (abs_batch (abs_state (base m)) (fst cl) ps) =
      Some (abs_state (base m'))"
    using a unfolding m' by (simp add: spec_run_abs_batch) (simp add: abs_state_def)
  with ps show ?thesis
    by (simp add: length_abs_batch)
qed

theorem handlers_refine_specification_witness:
  "\<exists>m m'. xrun (xboot signed_out Map.empty) (butlast sample_handlers) = Some m \<and>
     xstep m (last sample_handlers) = Some m' \<and>
     spec_run (abs_state (base m)) [Back, Navigate profile] = Some (abs_state (base m'))"
proof -
  obtain m m' where m: "xrun (xboot signed_out Map.empty) (butlast sample_handlers) = Some m"
    and m': "xstep m (last sample_handlers) = Some m'"
    and pg: "page (base m) = auth" and rd: "\<not> loading (ctx (base m)) (hooks (comp (base m)))"
    by (rule xrun_sample_handlers)
  from m' have h: "xstep m (Handler (home, home) [OnNavigate profile]) = Some m'"
    by (simp add: sample_handlers_def)
  from handlers_refine_specification [OF m rd h] pg
  have "spec_run (abs_state (base m)) [Back, Navigate profile] = Some (abs_state (base m'))"
    by (simp add: abs_batch_def leave_auth_def abs_state_def)
  with m m' show ?thesis by blast
qed

end
